theory Spec2Isabelle
  imports Complex_Main "HOL-Library.Multiset"
begin

section \<open>ProxyManager (scraper/proxy\_manager.py)\<close>

text \<open>
  A proxy is the dictionary \<^verbatim>\<open>{"http": ..., "https": ...}\<close>; two proxies are equal when
  both entries are equal, as Python compares dictionaries.
\<close>

record proxy =
  http :: string
  https :: string

datatype py_error = IndexError

record proxy_manager =
  proxies :: "proxy list"
  current_index :: nat

definition placeholder_proxies :: "proxy list" where
  "placeholder_proxies =
     [\<lparr>http = ''http://proxy1:port'', https = ''https://proxy1:port''\<rparr>,
      \<lparr>http = ''http://proxy2:port'', https = ''https://proxy2:port''\<rparr>,
      \<lparr>http = ''http://proxy3:port'', https = ''https://proxy3:port''\<rparr>]"

text \<open>
  \<^verbatim>\<open>_load_proxies\<close> assigns the three placeholder proxies and shuffles them in place. The
  order \<^verbatim>\<open>random.shuffle\<close> leaves is an input of the model (\<open>Shuffled ps\<close>); the
  \<^verbatim>\<open>except\<close> branch, which empties the pool, is \<open>Load_raised\<close>.
\<close>

datatype load_outcome = Shuffled "proxy list" | Load_raised

fun valid_load :: "load_outcome \<Rightarrow> bool" where
  "valid_load (Shuffled ps) = (mset ps = mset placeholder_proxies)"
| "valid_load Load_raised = True"

fun load_proxies :: "load_outcome \<Rightarrow> proxy_manager \<Rightarrow> proxy_manager" where
  "load_proxies (Shuffled ps) pm = pm\<lparr>proxies := ps\<rparr>"
| "load_proxies Load_raised pm = pm\<lparr>proxies := []\<rparr>"

definition proxy_manager_init :: "load_outcome \<Rightarrow> proxy_manager" where
  "proxy_manager_init lo = load_proxies lo \<lparr>proxies = [], current_index = 0\<rparr>"

text \<open>
  \<^verbatim>\<open>get_proxy\<close>: \<open>None\<close> on an empty pool; otherwise the element at the rotation index,
  which raises \<open>IndexError\<close> when the index is not below the length of the list.
\<close>

definition get_proxy :: "proxy_manager \<Rightarrow> (py_error + proxy option) \<times> proxy_manager" where
  "get_proxy pm =
     (if proxies pm = [] then (Inr None, pm)
      else if current_index pm < length (proxies pm)
      then (Inr (Some (proxies pm ! current_index pm)),
            pm\<lparr>current_index := (current_index pm + 1) mod length (proxies pm)\<rparr>)
      else (Inl IndexError, pm))"

definition mark_proxy_failed :: "proxy \<Rightarrow> load_outcome \<Rightarrow> proxy_manager \<Rightarrow> proxy_manager" where
  "mark_proxy_failed p lo pm =
     (if p \<in> set (proxies pm)
      then (let pm1 = pm\<lparr>proxies := remove1 p (proxies pm)\<rparr>
            in if length (proxies pm1) < 3 then load_proxies lo pm1 else pm1)
      else pm)"

datatype pm_call = Get_proxy | Mark_proxy_failed proxy load_outcome

fun valid_call :: "pm_call \<Rightarrow> bool" where
  "valid_call Get_proxy = True"
| "valid_call (Mark_proxy_failed p lo) = valid_load lo"

fun pm_step :: "pm_call \<Rightarrow> proxy_manager \<Rightarrow> proxy_manager" where
  "pm_step Get_proxy pm = snd (get_proxy pm)"
| "pm_step (Mark_proxy_failed p lo) pm = mark_proxy_failed p lo pm"

definition pm_calls :: "pm_call list \<Rightarrow> proxy_manager \<Rightarrow> proxy_manager" where
  "pm_calls cs pm = fold pm_step cs pm"

definition pool_ok :: "proxy_manager \<Rightarrow> bool" where
  "pool_ok pm \<longleftrightarrow> proxies pm = [] \<or> (length (proxies pm) = 3 \<and> current_index pm < 3)"

section \<open>The relational store (database/setup.py)\<close>

text \<open>
  A \<^verbatim>\<open>datetime\<close> carries its calendar fields and its position on the time line
  (\<open>instant\<close>, in seconds); comparison and \<^verbatim>\<open>timedelta\<close> arithmetic act on the
  position, the attribute \<^verbatim>\<open>.day\<close> is the day of the month.
\<close>

record datetime =
  year :: nat
  month :: nat
  day :: nat
  instant :: int

definition minus_days :: "datetime \<Rightarrow> int \<Rightarrow> int" where
  "minus_days t n = instant t - n * 86400"

type_synonym user_id = string

record user_row =
  user_id :: user_id
  username :: string
  full_name :: "string option"
  bio :: "string option"
  profile_pic_url :: "string option"
  follower_count :: "int option"
  following_count :: "int option"
  is_private :: "bool option"

record job_row =
  job_id :: nat
  target_username :: string
  job_type :: string
  status :: string
  started_at :: "datetime option"
  completed_at :: "datetime option"
  last_cursor :: "string option"
  total_items :: "nat option"
  processed_items :: nat
  error_message :: "string option"

record interest_row =
  i_user_id :: user_id
  category_id :: nat
  confidence_score :: "rat option"
  created_at :: datetime

text \<open>
  The tables, each a list of rows in insertion order. The edge tables hold the pair of
  their unique constraint: \<open>(user_id, follower_id)\<close>, \<open>(user_id, following_id)\<close>,
  \<open>(user_id, mutual_id)\<close>. \<open>job_seq\<close> is the sequence behind the serial column
  \<^verbatim>\<open>scrape_jobs.job_id\<close>. Columns that the server fills in and no statement of the program
  reads (the serial ids of the edge and interests tables, \<^verbatim>\<open>follow_date\<close>, \<^verbatim>\<open>last_updated\<close>,
  \<^verbatim>\<open>mutuals.created_at\<close>) are left out.
\<close>

record tables =
  users :: "user_row list"
  followers :: "(user_id \<times> user_id) list"
  following :: "(user_id \<times> user_id) list"
  mutuals :: "(user_id \<times> user_id) list"
  interests :: "interest_row list"
  scrape_jobs :: "job_row list"
  job_seq :: nat

text \<open>
  A connection: \<open>work\<close> is what the statements of the open transaction see and change,
  \<open>durable\<close> what the last \<^verbatim>\<open>commit()\<close> left in the store. Losing the connection leaves
  \<open>durable\<close>, and so does a transaction in which a statement has raised: the server
  ignores every further statement of it (\<open>InFailedSqlTransaction\<close>) and none of its
  statements is ever committed (\<open>lose_transaction\<close>).
\<close>

record connection =
  work :: tables
  durable :: tables

definition execute :: "(tables \<Rightarrow> tables) \<Rightarrow> connection \<Rightarrow> connection" where
  "execute f c = c\<lparr>work := f (work c)\<rparr>"

definition commit :: "connection \<Rightarrow> connection" where
  "commit c = c\<lparr>durable := work c\<rparr>"

definition interrupted :: "connection \<Rightarrow> tables" where
  "interrupted c = durable c"

definition lose_transaction :: "connection \<Rightarrow> connection" where
  "lose_transaction c = c\<lparr>work := durable c\<rparr>"

text \<open>
  What a call raises: an exception of the crawling library, given by its message
  (\<^verbatim>\<open>str(e)\<close>), or one of the two database errors that the statements of the crawler can
  meet.
\<close>

datatype error = Crawl_error string | ForeignKeyViolation | InFailedSqlTransaction

subsection \<open>Statements\<close>

text \<open>\<^verbatim>\<open>INSERT ... ON CONFLICT (<unique pair>) DO NOTHING\<close> on an edge table.\<close>

definition insert_edge :: "user_id \<times> user_id \<Rightarrow> (user_id \<times> user_id) list \<Rightarrow> (user_id \<times> user_id) list" where
  "insert_edge e es = (if e \<in> set es then es else es @ [e])"

text \<open>\<^verbatim>\<open>INSERT INTO users ... ON CONFLICT (user_id) DO NOTHING\<close>.\<close>

definition insert_user_if_absent :: "user_row \<Rightarrow> user_row list \<Rightarrow> user_row list" where
  "insert_user_if_absent r us = (if user_id r \<in> set (map user_id us) then us else us @ [r])"

text \<open>\<^verbatim>\<open>INSERT INTO users ... ON CONFLICT (user_id) DO UPDATE SET\<close> every attribute. The
  update writes a new version of the row, which a scan of the table meets after the rows
  that were not touched.\<close>

definition upsert_user :: "user_row \<Rightarrow> user_row list \<Rightarrow> user_row list" where
  "upsert_user r us =
     (if user_id r \<in> set (map user_id us)
      then filter (\<lambda>u. user_id u \<noteq> user_id r) us @ [r]
      else us @ [r])"

text \<open>The foreign keys of an edge table: both columns of
  \<^verbatim>\<open>followers(user_id, follower_id)\<close> and \<^verbatim>\<open>following(user_id, following_id)\<close> reference
  \<^verbatim>\<open>users(user_id)\<close>.\<close>

definition references_ok :: "user_id \<times> user_id \<Rightarrow> user_row list \<Rightarrow> bool" where
  "references_ok e us \<longleftrightarrow> fst e \<in> set (map user_id us) \<and> snd e \<in> set (map user_id us)"

text \<open>\<^verbatim>\<open>INSERT INTO scrape_jobs (target_username, job_type, status[, started_at])\<close>: the
  serial column takes the next value of the sequence, \<^verbatim>\<open>processed_items\<close> its default 0.\<close>

definition new_job :: "nat \<Rightarrow> string \<Rightarrow> string \<Rightarrow> string \<Rightarrow> datetime option \<Rightarrow> job_row" where
  "new_job j u ty st started =
     \<lparr>job_id = j, target_username = u, job_type = ty, status = st, started_at = started,
      completed_at = None, last_cursor = None, total_items = None, processed_items = 0,
      error_message = None\<rparr>"

definition insert_job :: "string \<Rightarrow> string \<Rightarrow> string \<Rightarrow> datetime option \<Rightarrow> tables \<Rightarrow> tables" where
  "insert_job u ty st started t =
     t\<lparr>scrape_jobs := scrape_jobs t @ [new_job (job_seq t) u ty st started],
       job_seq := Suc (job_seq t)\<rparr>"

text \<open>\<^verbatim>\<open>UPDATE scrape_jobs SET ... WHERE job_id = j\<close>.\<close>

definition update_job :: "nat \<Rightarrow> (job_row \<Rightarrow> job_row) \<Rightarrow> tables \<Rightarrow> tables" where
  "update_job j f t =
     t\<lparr>scrape_jobs := map (\<lambda>r. if job_id r = j then f r else r) (scrape_jobs t)\<rparr>"

definition set_processed :: "nat \<Rightarrow> job_row \<Rightarrow> job_row" where
  "set_processed n r = r\<lparr>processed_items := n\<rparr>"

definition set_completed :: "datetime \<Rightarrow> nat \<Rightarrow> job_row \<Rightarrow> job_row" where
  "set_completed t n r =
     r\<lparr>status := ''completed'', completed_at := Some t, total_items := Some n,
       processed_items := n\<rparr>"

definition set_failed :: "string \<Rightarrow> job_row \<Rightarrow> job_row" where
  "set_failed msg r = r\<lparr>status := ''failed'', error_message := Some msg\<rparr>"

section \<open>InstagramScraper (scraper/instagram\_scraper.py)\<close>

text \<open>
  What the crawling library answers during one call of the scraper. \<open>login\<close> is
  \<open>Some msg\<close> when \<^verbatim>\<open>insta_loader.login\<close> raises an exception with the message \<open>msg\<close>,
  \<open>lookup\<close> the result of \<^verbatim>\<open>Profile.from_username\<close>, \<open>listing\<close> the accounts that
  \<^verbatim>\<open>get_followers()\<close> or \<^verbatim>\<open>get_followees()\<close> yields, in order, and \<open>listing_error\<close> what the
  generator raises once they are exhausted, if anything. \<open>started\<close> and \<open>finished\<close> are the
  two readings of \<^verbatim>\<open>datetime.datetime.now()\<close>.
\<close>

record node =
  n_userid :: user_id
  n_username :: string
  n_full_name :: "string option"
  n_profile_pic_url :: "string option"
  n_is_private :: "bool option"

record profile =
  p_userid :: user_id
  p_username :: string
  p_full_name :: "string option"
  p_biography :: "string option"
  p_profile_pic_url :: "string option"
  p_followers :: int
  p_followees :: int
  p_is_private :: bool

record crawl_env =
  login :: "string option"
  lookup :: "string + profile"
  listing :: "node list"
  listing_error :: "string option"
  started :: datetime
  finished :: datetime

text \<open>
  The scraper holds the connection it was given and its Instaloader handle
  (\<open>insta_loader\<close> is \<open>False\<close> while the attribute is \<^verbatim>\<open>None\<close>). The connection of a scraper
  value is one whose transaction accepts statements; a call that leaves it in a failed
  transaction says so by the error \<open>InFailedSqlTransaction\<close> and gives the connection with
  the statements of that transaction lost. The code never rolls back, and the scheduler
  keeps note of the failed transaction (\<open>in_failed_transaction\<close> below).
\<close>

record scraper =
  db_conn :: connection
  insta_loader :: bool

definition on_conn :: "(connection \<Rightarrow> connection) \<Rightarrow> scraper \<Rightarrow> scraper" where
  "on_conn f sc = sc\<lparr>db_conn := f (db_conn sc)\<rparr>"

text \<open>\<^verbatim>\<open>_initialize_instaloader\<close>: the handle is assigned before the login is attempted.\<close>

definition initialize_instaloader :: "crawl_env \<Rightarrow> scraper \<Rightarrow> (error + unit) \<times> scraper" where
  "initialize_instaloader env sc =
     (if insta_loader sc then (Inr (), sc)
      else (case login env of
              Some msg \<Rightarrow> (Inl (Crawl_error msg), sc\<lparr>insta_loader := True\<rparr>)
            | None \<Rightarrow> (Inr (), sc\<lparr>insta_loader := True\<rparr>)))"

definition user_data :: "profile \<Rightarrow> user_row" where
  "user_data p =
     \<lparr>user_id = p_userid p, username = p_username p, full_name = p_full_name p,
      bio = p_biography p, profile_pic_url = p_profile_pic_url p,
      follower_count = Some (p_followers p), following_count = Some (p_followees p),
      is_private = Some (p_is_private p)\<rparr>"

definition get_user_profile :: "crawl_env \<Rightarrow> string \<Rightarrow> scraper \<Rightarrow> (error + user_row) \<times> scraper" where
  "get_user_profile env u sc =
     (case initialize_instaloader env sc of
        (Inl e, sc1) \<Rightarrow> (Inl e, sc1)
      | (Inr _, sc1) \<Rightarrow>
          (case lookup env of
             Inl msg \<Rightarrow> (Inl (Crawl_error msg), sc1)
           | Inr p \<Rightarrow>
               (Inr (user_data p),
                on_conn (\<lambda>c. commit (execute (\<lambda>t. t\<lparr>users := upsert_user (user_data p) (users t)\<rparr>) c)) sc1)))"

text \<open>
  \<^verbatim>\<open>get_followers\<close> and \<^verbatim>\<open>get_following\<close> are the same text up to the job type, the listing
  and the edge table; \<open>direction\<close> selects among them.
\<close>

datatype direction = Followers | Following

fun job_type_of :: "direction \<Rightarrow> string" where
  "job_type_of Followers = ''followers''"
| "job_type_of Following = ''following''"

fun edges :: "direction \<Rightarrow> tables \<Rightarrow> (user_id \<times> user_id) list" where
  "edges Followers t = followers t"
| "edges Following t = following t"

text \<open>The row of an edge in its table, unless the pair is there: \<^verbatim>\<open>ON CONFLICT DO NOTHING\<close>.\<close>

fun store_edge :: "direction \<Rightarrow> user_id \<times> user_id \<Rightarrow> tables \<Rightarrow> tables" where
  "store_edge Followers e t = t\<lparr>followers := insert_edge e (followers t)\<rparr>"
| "store_edge Following e t = t\<lparr>following := insert_edge e (following t)\<rparr>"

text \<open>\<^verbatim>\<open>INSERT INTO followers (user_id, follower_id) ... ON CONFLICT (user_id, follower_id) DO
  NOTHING\<close>, and the same for \<^verbatim>\<open>following\<close>: a pair that is present is passed over; a new
  pair is inserted when both accounts have a users row, and raises
  \<open>ForeignKeyViolation\<close> when one has none.\<close>

definition add_edge :: "direction \<Rightarrow> user_id \<times> user_id \<Rightarrow> tables \<Rightarrow> error + tables" where
  "add_edge d e t =
     (if e \<in> set (edges d t) \<or> references_ok e (users t) then Inr (store_edge d e t)
      else Inl ForeignKeyViolation)"

definition minimal_user :: "node \<Rightarrow> user_row" where
  "minimal_user x =
     \<lparr>user_id = n_userid x, username = n_username x, full_name = n_full_name x,
      bio = None, profile_pic_url = n_profile_pic_url x,
      follower_count = None, following_count = None, is_private = n_is_private x\<rparr>"

definition add_minimal_user :: "node \<Rightarrow> tables \<Rightarrow> tables" where
  "add_minimal_user x t = t\<lparr>users := insert_user_if_absent (minimal_user x) (users t)\<rparr>"

text \<open>\<^verbatim>\<open>if max_count and count >= max_count\<close>: \<^verbatim>\<open>None\<close> and 0 are both false.\<close>

definition limit_reached :: "int option \<Rightarrow> nat \<Rightarrow> bool" where
  "limit_reached max_count n =
     (case max_count of None \<Rightarrow> False | Some m \<Rightarrow> m \<noteq> 0 \<and> m \<le> int n)"

text \<open>One turn of the \<^verbatim>\<open>for\<close> loop, up to the \<^verbatim>\<open>break\<close> test: the running count goes from
  \<open>n\<close> to \<open>Suc n\<close>. The turn raises when the insert of the edge does.\<close>

definition loop_body :: "direction \<Rightarrow> nat \<Rightarrow> user_id \<Rightarrow> node \<Rightarrow> nat \<Rightarrow> connection \<Rightarrow> error + connection" where
  "loop_body d j uid x n c =
     (let c1 = execute (add_minimal_user x) c
      in case add_edge d (uid, n_userid x) (work c1) of
           Inl e \<Rightarrow> Inl e
         | Inr t2 \<Rightarrow>
             Inr (if Suc n mod 10 = 0
                  then commit (execute (update_job j (set_processed (Suc n))) (c1\<lparr>work := t2\<rparr>))
                  else c1\<lparr>work := t2\<rparr>))"

text \<open>The loop. It ends with the flag that says whether it was left by \<^verbatim>\<open>break\<close>, the count
  and the connection, or with the error that a turn raised and the connection on which it
  was raised.\<close>

fun listing_loop ::
  "direction \<Rightarrow> nat \<Rightarrow> user_id \<Rightarrow> int option \<Rightarrow> node list \<Rightarrow> nat \<Rightarrow> connection
     \<Rightarrow> error \<times> connection + bool \<times> nat \<times> connection" where
  "listing_loop d j uid mc [] n c = Inr (False, n, c)"
| "listing_loop d j uid mc (x # xs) n c =
     (case loop_body d j uid x n c of
        Inl e \<Rightarrow> Inl (e, c)
      | Inr c' \<Rightarrow>
          if limit_reached mc (Suc n) then Inr (True, Suc n, c')
          else listing_loop d j uid mc xs (Suc n) c')"

definition start_job :: "direction \<Rightarrow> string \<Rightarrow> datetime \<Rightarrow> connection \<Rightarrow> connection" where
  "start_job d u t c =
     commit (execute (insert_job u (job_type_of d) ''in_progress'' (Some t)) c)"

definition fail_job :: "nat \<Rightarrow> string \<Rightarrow> connection \<Rightarrow> connection" where
  "fail_job j msg c = commit (execute (update_job j (set_failed msg)) c)"

definition complete_job :: "nat \<Rightarrow> datetime \<Rightarrow> nat \<Rightarrow> connection \<Rightarrow> connection" where
  "complete_job j t n c = commit (execute (update_job j (set_completed t n)) c)"

text \<open>
  The body common to \<^verbatim>\<open>get_followers\<close> and \<^verbatim>\<open>get_following\<close>. An exception of the crawling
  library inside the \<^verbatim>\<open>try\<close> is handled by the \<^verbatim>\<open>except\<close> branch: the job is set to failed,
  committed, and the exception raised again. When a statement of the loop has raised, the
  transaction has failed and the \<^verbatim>\<open>UPDATE\<close> of the \<^verbatim>\<open>except\<close> branch raises
  \<open>InFailedSqlTransaction\<close> in its turn: that exception leaves the function, nothing
  since the last commit is kept, and the job stays in progress.
\<close>

definition fetch_list ::
  "direction \<Rightarrow> crawl_env \<Rightarrow> string \<Rightarrow> int option \<Rightarrow> scraper \<Rightarrow> (error + unit) \<times> scraper" where
  "fetch_list d env u max_count sc =
     (case initialize_instaloader env sc of
        (Inl e, sc1) \<Rightarrow> (Inl e, sc1)
      | (Inr _, sc1) \<Rightarrow>
          (let j = job_seq (work (db_conn sc1));
               c1 = start_job d u (started env) (db_conn sc1)
           in case lookup env of
                Inl msg \<Rightarrow> (Inl (Crawl_error msg), sc1\<lparr>db_conn := fail_job j msg c1\<rparr>)
              | Inr p \<Rightarrow>
                  (case listing_loop d j (p_userid p) max_count (listing env) 0 c1 of
                     Inl (e, c2) \<Rightarrow>
                       (Inl InFailedSqlTransaction, sc1\<lparr>db_conn := lose_transaction c2\<rparr>)
                   | Inr (broke, n, c2) \<Rightarrow>
                       (case (if broke then None else listing_error env) of
                          Some msg \<Rightarrow>
                            (Inl (Crawl_error msg), sc1\<lparr>db_conn := fail_job j msg c2\<rparr>)
                        | None \<Rightarrow>
                            (Inr (), sc1\<lparr>db_conn := complete_job j (finished env) n c2\<rparr>)))))"

definition get_followers :: "crawl_env \<Rightarrow> string \<Rightarrow> int option \<Rightarrow> scraper \<Rightarrow> (error + unit) \<times> scraper" where
  "get_followers = fetch_list Followers"

definition get_following :: "crawl_env \<Rightarrow> string \<Rightarrow> int option \<Rightarrow> scraper \<Rightarrow> (error + unit) \<times> scraper" where
  "get_following = fetch_list Following"

subsection \<open>calculate\_mutual\_followers\<close>

text \<open>The rows of \<^verbatim>\<open>followers f1 JOIN following f2 ON f1.user_id = f2.user_id AND
  f1.follower_id = f2.following_id WHERE f1.user_id = uid\<close>.\<close>

definition mutual_candidates :: "user_id \<Rightarrow> tables \<Rightarrow> (user_id \<times> user_id) list" where
  "mutual_candidates uid t =
     [f1. f1 \<leftarrow> followers t, f2 \<leftarrow> following t,
          fst f1 = fst f2 \<and> snd f1 = snd f2, fst f1 = uid]"

text \<open>\<^verbatim>\<open>INSERT INTO mutuals ... ON CONFLICT (user_id, mutual_id) DO NOTHING\<close>, with the
  \<^verbatim>\<open>rowcount\<close> of the statement: the number of rows it inserted.\<close>

fun insert_mutuals :: "(user_id \<times> user_id) list \<Rightarrow> (user_id \<times> user_id) list \<Rightarrow> nat \<times> (user_id \<times> user_id) list" where
  "insert_mutuals [] ms = (0, ms)"
| "insert_mutuals (e # es) ms =
     (if e \<in> set ms then insert_mutuals es ms
      else (case insert_mutuals es (ms @ [e]) of (k, ms') \<Rightarrow> (Suc k, ms')))"

datatype log_entry =
  User_not_found string
| Calculated_mutuals nat string

text \<open>
  The call gives back the scraper, the line it logged and the value the Python function
  returns: it has no \<^verbatim>\<open>return\<close> with a value, so that is \<^verbatim>\<open>None\<close> on both paths.
  \<^verbatim>\<open>fetchone()\<close> is the first user row with the name.
\<close>

record mutuals_call =
  returned :: "nat option"
  logged :: log_entry
  after :: scraper

definition calculate_mutual_followers :: "string \<Rightarrow> scraper \<Rightarrow> mutuals_call" where
  "calculate_mutual_followers u sc =
     (case find (\<lambda>r. username r = u) (users (work (db_conn sc))) of
        None \<Rightarrow> \<lparr>returned = None, logged = User_not_found u, after = sc\<rparr>
      | Some r \<Rightarrow>
          (let t = work (db_conn sc);
               res = insert_mutuals (mutual_candidates (user_id r) t) (mutuals t)
           in \<lparr>returned = None,
               logged = Calculated_mutuals (fst res) u,
               after = on_conn (\<lambda>c. commit (execute (\<lambda>t. t\<lparr>mutuals := snd res\<rparr>) c)) sc\<rparr>))"

section \<open>JobScheduler (scheduler/job\_scheduler.py)\<close>

text \<open>
  The scheduler and its scraper share one connection object, so the scheduler's
  \<^verbatim>\<open>self.db_conn\<close> is the \<open>db_conn\<close> of its scraper. \<open>in_failed_transaction\<close> holds once a
  statement on that connection has raised: no \<^verbatim>\<open>rollback()\<close> is ever issued, so from then on
  every statement raises \<open>InFailedSqlTransaction\<close>.
\<close>

record scheduler =
  the_scraper :: scraper
  daily_quota :: int
  current_day_processed :: int
  last_day :: nat
  in_failed_transaction :: bool

definition scheduler_init :: "datetime \<Rightarrow> connection \<Rightarrow> scheduler" where
  "scheduler_init now c =
     \<lparr>the_scraper = \<lparr>db_conn = c, insta_loader = False\<rparr>,
      daily_quota = 200, current_day_processed = 0, last_day = day now,
      in_failed_transaction = False\<rparr>"

definition reset_daily_counter :: "datetime \<Rightarrow> scheduler \<Rightarrow> scheduler" where
  "reset_daily_counter now s =
     (if day now \<noteq> last_day s
      then s\<lparr>current_day_processed := 0, last_day := day now\<rparr>
      else s)"

text \<open>The rows of the query of \<^verbatim>\<open>schedule_user_scraping\<close>; a \<^verbatim>\<open>NULL\<close> \<^verbatim>\<open>started_at\<close> does
  not satisfy \<^verbatim>\<open>started_at > %s\<close>.\<close>

definition recent_jobs :: "datetime \<Rightarrow> string \<Rightarrow> tables \<Rightarrow> job_row list" where
  "recent_jobs now u t =
     filter (\<lambda>r. target_username r = u
                \<and> job_type r \<in> set [''profile'', ''followers'', ''following'']
                \<and> (case started_at r of None \<Rightarrow> False
                    | Some st \<Rightarrow> minus_days now 7 < instant st))
            (scrape_jobs t)"

text \<open>\<^verbatim>\<open>schedule_user_scraping\<close>; in a failed transaction its query raises and the
  \<^verbatim>\<open>except\<close> branch only logs.\<close>

definition schedule_user_scraping :: "datetime \<Rightarrow> string \<Rightarrow> scheduler \<Rightarrow> scheduler" where
  "schedule_user_scraping now u s =
     (if in_failed_transaction s then s
      else if recent_jobs now u (work (db_conn (the_scraper s))) = []
      then s\<lparr>the_scraper :=
               on_conn (\<lambda>c. commit (fold (\<lambda>ty. execute (insert_job u ty ''pending'' None))
                                         [''profile'', ''followers'', ''following''] c))
                       (the_scraper s)\<rparr>
      else s)"

text \<open>\<^verbatim>\<open>SELECT job_id, target_username, job_type FROM scrape_jobs WHERE status = 'pending'
  ORDER BY job_id LIMIT batch_size\<close>.\<close>

definition pending_batch :: "int \<Rightarrow> tables \<Rightarrow> (nat \<times> string \<times> string) list" where
  "pending_batch batch_size t =
     map (\<lambda>r. (job_id r, target_username r, job_type r))
         (take (nat batch_size)
               (sort_key job_id (filter (\<lambda>r. status r = ''pending'') (scrape_jobs t))))"

text \<open>\<^verbatim>\<open>SELECT COUNT(*) ... WHERE target_username = %s AND job_type IN ('followers',
  'following') AND status = 'completed'\<close>.\<close>

definition completed_count :: "string \<Rightarrow> tables \<Rightarrow> nat" where
  "completed_count u t =
     length (filter (\<lambda>r. target_username r = u
                        \<and> job_type r \<in> set [''followers'', ''following'']
                        \<and> status r = ''completed'')
                    (scrape_jobs t))"

text \<open>How the turn of the scheduler's loop for one job ends: the job was processed; its
  crawler call raised and the job was set to failed with the message; or the \<^verbatim>\<open>UPDATE\<close> of
  the \<^verbatim>\<open>except\<close> branch raised in its turn, which ends the loop.\<close>

datatype outcome = Processed | Failed string | Abandoned

text \<open>The crawler call of one job: the \<^verbatim>\<open>if/elif\<close> chain on the job type.\<close>

definition dispatch :: "crawl_env \<Rightarrow> string \<Rightarrow> string \<Rightarrow> scraper \<Rightarrow> (error + unit) \<times> scraper" where
  "dispatch env u ty sc =
     (if ty = ''profile''
      then (case get_user_profile env u sc of
              (Inl e, sc1) \<Rightarrow> (Inl e, sc1)
            | (Inr _, sc1) \<Rightarrow> (Inr (), sc1))
      else if ty = ''followers'' then get_followers env u None sc
      else if ty = ''following'' then get_following env u None sc
      else (Inr (), sc))"

text \<open>The body of the \<^verbatim>\<open>for\<close> loop of \<^verbatim>\<open>process_pending_jobs\<close> for one selected job;
  \<open>world j\<close> is what the crawling library answers while job \<open>j\<close> is processed. After an
  exception of the crawling library the \<^verbatim>\<open>except\<close> branch sets the job to failed with
  \<^verbatim>\<open>str(e)\<close> and commits. After a database error the transaction has failed, the
  \<^verbatim>\<open>UPDATE\<close> of the \<^verbatim>\<open>except\<close> branch raises, and the job is left as it is.\<close>

definition process_job ::
  "(nat \<Rightarrow> crawl_env) \<Rightarrow> nat \<times> string \<times> string \<Rightarrow> scheduler \<Rightarrow> outcome \<times> scheduler" where
  "process_job world job s =
     (case job of (j, u, ty) \<Rightarrow>
        (case dispatch (world j) u ty (the_scraper s) of
           (Inl (Crawl_error msg), sc1) \<Rightarrow>
             (Failed msg, s\<lparr>the_scraper := on_conn (fail_job j msg) sc1\<rparr>)
         | (Inl ForeignKeyViolation, sc1) \<Rightarrow>
             (Abandoned,
              s\<lparr>the_scraper := on_conn lose_transaction sc1, in_failed_transaction := True\<rparr>)
         | (Inl InFailedSqlTransaction, sc1) \<Rightarrow>
             (Abandoned,
              s\<lparr>the_scraper := on_conn lose_transaction sc1, in_failed_transaction := True\<rparr>)
         | (Inr _, sc1) \<Rightarrow>
             (let sc2 = (if ty \<in> set [''followers'', ''following'']
                            \<and> completed_count u (work (db_conn sc1)) = 2
                         then after (calculate_mutual_followers u sc1)
                         else sc1)
              in (Processed,
                  s\<lparr>the_scraper := sc2,
                    current_day_processed := current_day_processed s + 1\<rparr>))))"

text \<open>The \<^verbatim>\<open>for\<close> loop: the exception that leaves the \<^verbatim>\<open>except\<close> branch of a job is caught
  by the outer \<^verbatim>\<open>try\<close>, outside the loop, so the jobs after it are not processed.\<close>

fun process_jobs ::
  "(nat \<Rightarrow> crawl_env) \<Rightarrow> (nat \<times> string \<times> string) list \<Rightarrow> scheduler \<Rightarrow> (nat \<times> outcome) list \<times> scheduler" where
  "process_jobs world [] s = ([], s)"
| "process_jobs world (job # jobs) s =
     (case process_job world job s of
        (r, s1) \<Rightarrow>
          if r = Abandoned then ([(fst job, r)], s1)
          else (case process_jobs world jobs s1 of
                  (rs, s2) \<Rightarrow> ((fst job, r) # rs, s2)))"

text \<open>The jobs that a call of \<^verbatim>\<open>process_pending_jobs\<close> selects, after the reset and the
  quota test: none in a failed transaction, where the query raises.\<close>

definition selected_jobs :: "datetime \<Rightarrow> scheduler \<Rightarrow> (nat \<times> string \<times> string) list" where
  "selected_jobs now s =
     (let s1 = reset_daily_counter now s
      in if daily_quota s1 \<le> current_day_processed s1 then []
         else if in_failed_transaction s1 then []
         else pending_batch (min (daily_quota s1 - current_day_processed s1) 10)
                            (work (db_conn (the_scraper s1))))"

text \<open>\<^verbatim>\<open>process_pending_jobs\<close>, with the outcome of every job it processed, in order. In a
  failed transaction the query for the batch raises and the outer \<^verbatim>\<open>except\<close> branch only
  logs.\<close>

definition process_pending_jobs ::
  "datetime \<Rightarrow> (nat \<Rightarrow> crawl_env) \<Rightarrow> scheduler \<Rightarrow> (nat \<times> outcome) list \<times> scheduler" where
  "process_pending_jobs now world s =
     (let s1 = reset_daily_counter now s
      in if daily_quota s1 \<le> current_day_processed s1 then ([], s1)
         else if in_failed_transaction s1 then ([], s1)
         else (let remaining_quota = daily_quota s1 - current_day_processed s1;
                   batch_size = min remaining_quota 10;
                   jobs = pending_batch batch_size (work (db_conn (the_scraper s1)))
               in if jobs = [] then ([], s1)
                  else process_jobs world jobs s1))"

text \<open>A run of ticks: each tick has its clock reading and its world.\<close>

fun ticks :: "(datetime \<times> (nat \<Rightarrow> crawl_env)) list \<Rightarrow> scheduler \<Rightarrow> scheduler" where
  "ticks [] s = s"
| "ticks ((now, world) # rest) s = ticks rest (snd (process_pending_jobs now world s))"

section \<open>InterestAnalyzer (analysis/interest\_analyzer.py)\<close>

text \<open>
  One element of the \<^verbatim>\<open>results\<close> array of a classification response. For the name and the
  category \<open>None\<close> is a missing key or an explicit \<^verbatim>\<open>null\<close>: \<^verbatim>\<open>result.get\<close> gives
  \<^verbatim>\<open>None\<close> for both. For the confidence the two differ: \<^verbatim>\<open>result.get("confidence", 0.5)\<close>
  is 0.5 for a missing key and \<^verbatim>\<open>None\<close>, stored as \<^verbatim>\<open>NULL\<close>, for an explicit \<^verbatim>\<open>null\<close>.
\<close>

datatype 'a json_field = Missing | Null | Value 'a

record classification =
  c_username :: "string option"
  c_category :: "string option"
  c_confidence :: "rat json_field"

text \<open>\<^verbatim>\<open>INSERT INTO interests ... ON CONFLICT (user_id, category_id) DO UPDATE SET
  confidence_score = EXCLUDED.confidence_score, created_at = CURRENT_TIMESTAMP\<close>.\<close>

definition upsert_interest :: "user_id \<Rightarrow> nat \<Rightarrow> rat option \<Rightarrow> datetime \<Rightarrow> interest_row list \<Rightarrow> interest_row list" where
  "upsert_interest uid cid conf now rows =
     (if (uid, cid) \<in> set (map (\<lambda>r. (i_user_id r, category_id r)) rows)
      then map (\<lambda>r. if i_user_id r = uid \<and> category_id r = cid
                     then r\<lparr>confidence_score := conf, created_at := now\<rparr> else r) rows
      else rows @ [\<lparr>i_user_id = uid, category_id = cid, confidence_score = conf, created_at = now\<rparr>])"

definition confidence_of :: "classification \<Rightarrow> rat option" where
  "confidence_of r =
     (case c_confidence r of Missing \<Rightarrow> Some (1 / 2) | Null \<Rightarrow> None | Value x \<Rightarrow> Some x)"

text \<open>The category id of a result, when its category is a key of the mapping.\<close>

definition category_of :: "(string \<rightharpoonup> nat) \<Rightarrow> classification \<Rightarrow> nat option" where
  "category_of category_mapping r =
     (case c_category r of None \<Rightarrow> None | Some name \<Rightarrow> category_mapping name)"

text \<open>One turn of the loop of \<^verbatim>\<open>_store_interest_results\<close>.\<close>

definition store_one :: "user_id \<Rightarrow> (string \<rightharpoonup> nat) \<Rightarrow> datetime \<Rightarrow> classification \<Rightarrow> connection \<Rightarrow> connection" where
  "store_one uid category_mapping now r c =
     (case category_of category_mapping r of
        None \<Rightarrow> c
      | Some cid \<Rightarrow>
          execute (\<lambda>t. t\<lparr>interests := upsert_interest uid cid (confidence_of r) now (interests t)\<rparr>) c)"

definition store_interest_results ::
  "user_id \<Rightarrow> classification list \<Rightarrow> (string \<rightharpoonup> nat) \<Rightarrow> datetime \<Rightarrow> connection \<Rightarrow> connection" where
  "store_interest_results uid results category_mapping now c =
     commit (fold (store_one uid category_mapping now) results c)"

section \<open>Auxiliary notions\<close>

text \<open>The tables that the statements of a scheduler see, and the id, type and status of
  every job in them.\<close>

definition tables_of :: "scheduler \<Rightarrow> tables" where
  "tables_of s = work (db_conn (the_scraper s))"

definition job_status_list :: "scheduler \<Rightarrow> (nat \<times> string \<times> string) list" where
  "job_status_list s = map (\<lambda>r. (job_id r, job_type r, status r)) (scrape_jobs (tables_of s))"

text \<open>The counter is within the quota.\<close>

definition within_quota :: "scheduler \<Rightarrow> bool" where
  "within_quota s \<longleftrightarrow> 0 \<le> daily_quota s \<and> current_day_processed s \<le> daily_quota s"

text \<open>The accounts a target has a follower edge to, and a following edge to.\<close>

definition follower_targets :: "user_id \<Rightarrow> tables \<Rightarrow> user_id set" where
  "follower_targets uid t = set (map snd (filter (\<lambda>e. fst e = uid) (followers t)))"

definition following_targets :: "user_id \<Rightarrow> tables \<Rightarrow> user_id set" where
  "following_targets uid t = set (map snd (filter (\<lambda>e. fst e = uid) (following t)))"

text \<open>The keys \<open>(user_id, category_id)\<close> of the interests table.\<close>

definition interest_keys :: "tables \<Rightarrow> (user_id \<times> nat) set" where
  "interest_keys t = set (map (\<lambda>r. (i_user_id r, category_id r)) (interests t))"

text \<open>The edges that a listing stands for.\<close>

definition edge_rows :: "user_id \<Rightarrow> node list \<Rightarrow> (user_id \<times> user_id) list" where
  "edge_rows uid xs = map (\<lambda>x. (uid, n_userid x)) xs"

text \<open>The connection after a turn of the loop in which nothing raised, and after such
  turns for every account of a list, the running count starting at \<open>n\<close>.\<close>

definition body_done :: "direction \<Rightarrow> nat \<Rightarrow> user_id \<Rightarrow> node \<Rightarrow> nat \<Rightarrow> connection \<Rightarrow> connection" where
  "body_done d j uid x n c =
     (let c2 = execute (store_edge d (uid, n_userid x)) (execute (add_minimal_user x) c)
      in if Suc n mod 10 = 0
         then commit (execute (update_job j (set_processed (Suc n))) c2)
         else c2)"

fun items_done :: "direction \<Rightarrow> nat \<Rightarrow> user_id \<Rightarrow> node list \<Rightarrow> nat \<Rightarrow> connection \<Rightarrow> connection" where
  "items_done d j uid [] n c = c"
| "items_done d j uid (x # xs) n c = items_done d j uid xs (Suc n) (body_done d j uid x n c)"

text \<open>The limit lets the loop take \<open>k\<close> accounts: it is not reached before the
  \<open>k\<close>-th.\<close>

definition within_limit :: "int option \<Rightarrow> nat \<Rightarrow> bool" where
  "within_limit max_count k \<longleftrightarrow>
     (case max_count of None \<Rightarrow> True | Some m \<Rightarrow> m = 0 \<or> k \<le> 1 \<or> int k \<le> m)"

text \<open>The target of a fetch has a users row.\<close>

definition has_user :: "user_id \<Rightarrow> tables \<Rightarrow> bool" where
  "has_user uid t \<longleftrightarrow> uid \<in> set (map user_id (users t))"

section \<open>Concrete inputs\<close>

text \<open>A store without rows; the job sequence starts at 1.\<close>

definition empty_tables :: tables where
  "empty_tables =
     \<lparr>users = [], followers = [], following = [], mutuals = [], interests = [],
      scrape_jobs = [], job_seq = 1\<rparr>"

definition empty_conn :: connection where
  "empty_conn = \<lparr>work = empty_tables, durable = empty_tables\<rparr>"

text \<open>15 January 2024 at 10:00 and 10:30, 16 January 2024 and 15 February 2024 at 10:00.\<close>

definition jan15 :: datetime where
  "jan15 = \<lparr>year = 2024, month = 1, day = 15, instant = 1705312800\<rparr>"

definition jan15_later :: datetime where
  "jan15_later = \<lparr>year = 2024, month = 1, day = 15, instant = 1705314600\<rparr>"

definition jan16 :: datetime where
  "jan16 = \<lparr>year = 2024, month = 1, day = 16, instant = 1705399200\<rparr>"

definition feb15 :: datetime where
  "feb15 = \<lparr>year = 2024, month = 2, day = 15, instant = 1707991200\<rparr>"

text \<open>A listed account whose id and name are the same string, and the profile of
  \<open>acct1\<close>, with user id 1.\<close>

definition acct :: "string \<Rightarrow> node" where
  "acct name =
     \<lparr>n_userid = name, n_username = name, n_full_name = None,
      n_profile_pic_url = None, n_is_private = Some False\<rparr>"

definition acct1_profile :: profile where
  "acct1_profile =
     \<lparr>p_userid = ''1'', p_username = ''acct1'', p_full_name = None, p_biography = None,
      p_profile_pic_url = None, p_followers = 2, p_followees = 2, p_is_private = False\<rparr>"

text \<open>A world in which the login and the profile lookup succeed and the listing yields
  the given accounts without an error.\<close>

definition calm :: "node list \<Rightarrow> crawl_env" where
  "calm xs =
     \<lparr>login = None, lookup = Inr acct1_profile, listing = xs, listing_error = None,
      started = jan15, finished = jan15_later\<rparr>"

text \<open>A world in which the profile lookup raises.\<close>

definition stormy :: crawl_env where
  "stormy =
     \<lparr>login = None, lookup = Inl ''connection reset'', listing = [],
      listing_error = None, started = jan15, finished = jan15_later\<rparr>"

text \<open>Two rotations, the eviction of the first placeholder proxy, one more rotation.\<close>

definition demo_calls :: "pm_call list" where
  "demo_calls =
     [Get_proxy, Get_proxy,
      Mark_proxy_failed \<lparr>http = ''http://proxy1:port'', https = ''https://proxy1:port''\<rparr>
        (Shuffled (rev placeholder_proxies)),
      Get_proxy]"

text \<open>A scheduler constructed on 15 January 2024 over a store whose only job is a pending
  followers job for \<open>acct1\<close>, and one over an empty store after enrolling \<open>acct1\<close>.\<close>

definition one_pending :: scheduler where
  "one_pending = scheduler_init jan15
     \<lparr>work = insert_job ''acct1'' ''followers'' ''pending'' None empty_tables,
      durable = insert_job ''acct1'' ''followers'' ''pending'' None empty_tables\<rparr>"

definition enrolled :: scheduler where
  "enrolled = schedule_user_scraping jan15 ''acct1'' (scheduler_init jan15 empty_conn)"

text \<open>A world that answers every job with an empty listing, and one in which the profile
  lookup raises while job 1 is processed and every later job finds the profile and one
  listed account.\<close>

definition quiet :: "nat \<Rightarrow> crawl_env" where
  "quiet j = calm []"

definition profile_down :: "nat \<Rightarrow> crawl_env" where
  "profile_down j = (if j = 1 then stormy else calm [acct ''a''])"

text \<open>Twelve listed accounts.\<close>

definition twelve :: "node list" where
  "twelve =
     map acct [''a'', ''b'', ''c'', ''d'', ''e'', ''f'', ''g'', ''h'', ''i'', ''j'', ''k'', ''l'']"

text \<open>A store in which \<open>acct1\<close> (user id 1) has account \<open>a\<close> both as a follower and
  among its followees, and no mutual row yet.\<close>

definition linked_tables :: tables where
  "linked_tables =
     empty_tables\<lparr>users := [user_data acct1_profile, minimal_user (acct ''a'')],
                  followers := [(''1'', ''a'')], following := [(''1'', ''a'')]\<rparr>"

definition linked :: scraper where
  "linked = \<lparr>db_conn = \<lparr>work = linked_tables, durable = linked_tables\<rparr>, insta_loader = False\<rparr>"

text \<open>A category mapping with two categories and a batch of three results, the second
  of which names a category outside the taxonomy.\<close>

definition small_taxonomy :: "string \<rightharpoonup> nat" where
  "small_taxonomy = [''Fashion'' \<mapsto> 1, ''Technology'' \<mapsto> 2]"

definition mixed_batch :: "classification list" where
  "mixed_batch =
     [\<lparr>c_username = Some ''fashionaccount'', c_category = Some ''Fashion'', c_confidence = Value (9 / 10)\<rparr>,
      \<lparr>c_username = Some ''stargazer'', c_category = Some ''Astrology'', c_confidence = Value (4 / 5)\<rparr>,
      \<lparr>c_username = Some ''techguru'', c_category = Some ''Technology'', c_confidence = Missing\<rparr>]"

text \<open>A scraper, already logged in, over a store that knows \<open>acct1\<close> and nothing else.\<close>

definition profiled :: scraper where
  "profiled =
     \<lparr>db_conn = \<lparr>work = empty_tables\<lparr>users := [user_data acct1_profile]\<rparr>,
                  durable = empty_tables\<lparr>users := [user_data acct1_profile]\<rparr>\<rparr>,
      insta_loader = True\<rparr>"

text \<open>A scraper, already logged in, over a store without rows: \<open>acct1\<close> has no users
  row.\<close>

definition bare :: scraper where
  "bare = \<lparr>db_conn = empty_conn, insta_loader = True\<rparr>"

section \<open>Verified properties\<close>

lemma valid_load_length:
  "valid_load (Shuffled ps) \<Longrightarrow> length ps = 3"
proof -
  assume "valid_load (Shuffled ps)"
  then have "size (mset ps) = size (mset placeholder_proxies)" by simp
  then show ?thesis by (simp add: placeholder_proxies_def)
qed

lemma pool_ok_load: "valid_load lo \<Longrightarrow> current_index pm < 3 \<Longrightarrow> pool_ok (load_proxies lo pm)"
proof (cases lo)
  case (Shuffled ps)
  assume "valid_load lo" and "current_index pm < 3"
  with Shuffled valid_load_length [of ps] show ?thesis
    by (simp add: pool_ok_def)
next
  case Load_raised
  then show ?thesis by (simp add: pool_ok_def)
qed

lemma pool_ok_init: "valid_load lo \<Longrightarrow> pool_ok (proxy_manager_init lo)"
  by (simp add: proxy_manager_init_def pool_ok_load)

lemma pool_ok_get: "pool_ok pm \<Longrightarrow> pool_ok (snd (get_proxy pm))"
  by (auto simp: pool_ok_def get_proxy_def)

lemma pool_ok_mark: "valid_load lo \<Longrightarrow> pool_ok pm \<Longrightarrow> pool_ok (mark_proxy_failed p lo pm)"
proof (cases "p \<in> set (proxies pm)")
  case False
  assume "pool_ok pm"
  with False show ?thesis by (simp add: mark_proxy_failed_def)
next
  case True
  assume lo: "valid_load lo" and ok: "pool_ok pm"
  from True ok have len: "length (proxies pm) = 3" and idx: "current_index pm < 3"
    by (auto simp: pool_ok_def)
  from True len have "length (remove1 p (proxies pm)) = 2"
    by (simp add: length_remove1)
  with True lo idx show ?thesis
    by (simp add: mark_proxy_failed_def Let_def pool_ok_load)
qed

lemma pool_ok_call: "valid_call c \<Longrightarrow> pool_ok pm \<Longrightarrow> pool_ok (pm_step c pm)"
  by (cases c) (simp_all add: pool_ok_get pool_ok_mark)

lemma pool_ok_calls: "list_all valid_call cs \<Longrightarrow> pool_ok pm \<Longrightarrow> pool_ok (pm_calls cs pm)"
  unfolding pm_calls_def
  by (induction cs arbitrary: pm) (simp_all add: pool_ok_call)

text \<open>
  C10. After any interleaving of \<^verbatim>\<open>get_proxy\<close> and \<^verbatim>\<open>mark_proxy_failed\<close> calls on a freshly
  constructed ProxyManager, the next \<^verbatim>\<open>get_proxy\<close> does not raise: it returns \<open>None\<close>
  exactly when the pool is empty and otherwise a proxy that is in the pool, and the
  rotation index is below the length of a non-empty pool.
\<close>

theorem get_proxy_never_fails:
  assumes "valid_load lo" and "list_all valid_call cs"
    and "pm = pm_calls cs (proxy_manager_init lo)"
  shows "(proxies pm = [] \<and> fst (get_proxy pm) = Inr None)
       \<or> (current_index pm < length (proxies pm)
          \<and> (\<exists>p. fst (get_proxy pm) = Inr (Some p) \<and> p \<in> set (proxies pm)))"
proof -
  from assms have "pool_ok pm"
    by (simp add: pool_ok_calls pool_ok_init)
  then show ?thesis
    by (auto simp: pool_ok_def get_proxy_def)
qed

theorem get_proxy_never_fails_witness:
  "valid_load (Shuffled placeholder_proxies) \<and> list_all valid_call demo_calls
   \<and> proxies (pm_calls demo_calls (proxy_manager_init (Shuffled placeholder_proxies))) \<noteq> []
   \<and> fst (get_proxy (pm_calls demo_calls (proxy_manager_init (Shuffled placeholder_proxies))))
       = Inr (Some \<lparr>http = ''http://proxy3:port'', https = ''https://proxy3:port''\<rparr>)"
  using get_proxy_never_fails [of "Shuffled placeholder_proxies" demo_calls
      "pm_calls demo_calls (proxy_manager_init (Shuffled placeholder_proxies))"]
  by (simp add: demo_calls_def placeholder_proxies_def pm_calls_def proxy_manager_init_def
      get_proxy_def mark_proxy_failed_def)

subsection \<open>Evaluation at concrete inputs\<close>

lemmas eval_store =
  empty_tables_def empty_conn_def insert_job_def new_job_def update_job_def execute_def
  commit_def tables_of_def job_status_list_def

lemmas eval_clock = jan15_def jan15_later_def jan16_def feb15_def minus_days_def

lemmas eval_scheduler =
  scheduler_init_def reset_daily_counter_def selected_jobs_def pending_batch_def
  process_pending_jobs_def process_job_def dispatch_def completed_count_def
  schedule_user_scraping_def recent_jobs_def on_conn_def

lemmas eval_scraper =
  get_followers_def get_following_def fetch_list_def initialize_instaloader_def
  start_job_def complete_job_def fail_job_def set_completed_def set_failed_def
  set_processed_def calm_def stormy_def quiet_def profile_down_def lose_transaction_def

text \<open>
  C6. The counter is to be reset exactly when the calendar date has changed. The code
  compares days of the month: a scheduler whose last recorded date is 15 January 2024 and
  whose counter stands at the quota is called on 15 February 2024. The date differs, the
  counter is not reset, and the call returns at once although jobs are pending.
\<close>

theorem reset_misses_same_day_of_month:
  "(year jan15, month jan15, day jan15) \<noteq> (year feb15, month feb15, day feb15)
   \<and> last_day (one_pending\<lparr>current_day_processed := 200\<rparr>) = day jan15
   \<and> current_day_processed
        (reset_daily_counter feb15 (one_pending\<lparr>current_day_processed := 200\<rparr>)) = 200
   \<and> process_pending_jobs feb15 quiet (one_pending\<lparr>current_day_processed := 200\<rparr>)
       = ([], one_pending\<lparr>current_day_processed := 200\<rparr>)"
  by (simp add: one_pending_def eval_clock scheduler_init_def reset_daily_counter_def
      process_pending_jobs_def Let_def)

text \<open>
  C4. Enrolling \<open>acct1\<close> on an empty store creates three pending jobs, one per job type.
  Enrolling it again half an hour later is to create nothing; the code creates three more
  jobs, because the pending jobs have no \<^verbatim>\<open>started_at\<close> and the query for recent jobs
  passes them over.
\<close>

theorem reenroll_duplicates_pending_jobs:
  "job_status_list enrolled
     = [(1, ''profile'', ''pending''), (2, ''followers'', ''pending''),
        (3, ''following'', ''pending'')]
   \<and> recent_jobs jan15_later ''acct1'' (tables_of enrolled) = []
   \<and> job_status_list (schedule_user_scraping jan15_later ''acct1'' enrolled)
     = [(1, ''profile'', ''pending''), (2, ''followers'', ''pending''),
        (3, ''following'', ''pending''), (4, ''profile'', ''pending''),
        (5, ''followers'', ''pending''), (6, ''following'', ''pending'')]"
  by (simp add: enrolled_def eval_store eval_clock eval_scheduler)

text \<open>
  C1. A pending followers job is dispatched and the crawler returns without an error.
  The dispatched record is to end up completed; in the code the crawler inserts a record
  of its own (job 2) and completes that one, the dispatched job 1 stays pending and is
  selected again by the next call.
\<close>

theorem dispatched_job_stays_pending:
  "selected_jobs jan15_later one_pending = [(1, ''acct1'', ''followers'')]
   \<and> fst (process_pending_jobs jan15_later quiet one_pending) = [(1, Processed)]
   \<and> job_status_list (snd (process_pending_jobs jan15_later quiet one_pending))
       = [(1, ''followers'', ''pending''), (2, ''followers'', ''completed'')]
   \<and> selected_jobs jan15_later (snd (process_pending_jobs jan15_later quiet one_pending))
       = [(1, ''acct1'', ''followers'')]"
  by (simp add: one_pending_def eval_store eval_clock eval_scheduler eval_scraper Let_def)

subsection \<open>The daily quota\<close>
lemma process_job_counter:
  "process_job world job s = (r, s') \<Longrightarrow>
     daily_quota s' = daily_quota s \<and> last_day s' = last_day s
     \<and> current_day_processed s' = current_day_processed s + (if r = Processed then 1 else 0)"
  by (auto simp: process_job_def Let_def split: prod.splits sum.splits error.splits)

lemma process_jobs_counter:
  "process_jobs world jobs s = (out, s') \<Longrightarrow>
     daily_quota s' = daily_quota s \<and> last_day s' = last_day s
     \<and> length out \<le> length jobs
     \<and> current_day_processed s'
         = current_day_processed s + int (length (filter (\<lambda>e. snd e = Processed) out))"
proof (induction jobs arbitrary: s out s')
  case Nil
  then show ?case by simp
next
  case (Cons job jobs)
  obtain r s1 where step: "process_job world job s = (r, s1)"
    by (cases "process_job world job s")
  obtain rs s2 where rest: "process_jobs world jobs s1 = (rs, s2)"
    by (cases "process_jobs world jobs s1")
  show ?case
  proof (cases "r = Abandoned")
    case True
    with Cons.prems step have "out = [(fst job, r)]" and "s' = s1" by simp_all
    with process_job_counter [OF step] True show ?thesis by simp
  next
    case False
    with Cons.prems step rest have "out = (fst job, r) # rs" and "s' = s2" by simp_all
    with process_job_counter [OF step] Cons.IH [OF rest] show ?thesis by simp
  qed
qed

lemma length_pending_batch: "int (length (pending_batch n t)) \<le> max 0 n"
  by (simp add: pending_batch_def)

lemma length_selected_jobs:
  "int (length (selected_jobs now s))
     \<le> max 0 (min (daily_quota s - current_day_processed (reset_daily_counter now s)) 10)"
proof -
  have q: "daily_quota (reset_daily_counter now s) = daily_quota s"
    by (simp add: reset_daily_counter_def)
  show ?thesis
  proof (cases "daily_quota s \<le> current_day_processed (reset_daily_counter now s)")
    case True
    then show ?thesis by (simp add: selected_jobs_def Let_def q)
  next
    case False
    with length_pending_batch
      [of "min (daily_quota s - current_day_processed (reset_daily_counter now s)) 10"
          "work (db_conn (the_scraper (reset_daily_counter now s)))"]
    show ?thesis by (simp add: selected_jobs_def Let_def q)
  qed
qed

lemma process_pending_jobs_selected:
  "process_pending_jobs now world s
     = process_jobs world (selected_jobs now s) (reset_daily_counter now s)"
  by (simp add: process_pending_jobs_def selected_jobs_def Let_def)

lemma within_quota_reset: "within_quota s \<Longrightarrow> within_quota (reset_daily_counter now s)"
  by (simp add: within_quota_def reset_daily_counter_def)

lemma within_quota_tick:
  assumes "within_quota s"
  shows "within_quota (snd (process_pending_jobs now world s))
       \<and> daily_quota (snd (process_pending_jobs now world s)) = daily_quota s"
proof -
  let ?s1 = "reset_daily_counter now s"
  obtain out s' where run: "process_jobs world (selected_jobs now s) ?s1 = (out, s')"
    by (cases "process_jobs world (selected_jobs now s) ?s1")
  have q1: "daily_quota ?s1 = daily_quota s"
    by (simp add: reset_daily_counter_def)
  from assms have ok1: "within_quota ?s1" by (rule within_quota_reset)
  from process_jobs_counter [OF run]
  have q: "daily_quota s' = daily_quota ?s1"
    and len: "length out \<le> length (selected_jobs now s)"
    and cnt: "current_day_processed s'
         = current_day_processed ?s1 + int (length (filter (\<lambda>e. snd e = Processed) out))"
    by simp_all
  have "int (length (filter (\<lambda>e. snd e = Processed) out)) \<le> int (length out)"
    by simp
  also have "\<dots> \<le> max 0 (min (daily_quota s - current_day_processed ?s1) 10)"
    using length_selected_jobs [of now s] len by simp
  finally have "current_day_processed s' \<le> daily_quota s"
    using cnt ok1 q1 by (simp add: within_quota_def)
  with q q1 ok1 run show ?thesis
    by (simp add: process_pending_jobs_selected within_quota_def)
qed

lemma within_quota_ticks:
  "within_quota s \<Longrightarrow>
     within_quota (ticks ts s) \<and> daily_quota (ticks ts s) = daily_quota s"
proof (induction ts arbitrary: s)
  case Nil
  then show ?case by simp
next
  case (Cons t ts)
  obtain now world where t: "t = (now, world)" by (cases t)
  from within_quota_tick [OF Cons.prems, of now world] Cons.IH [of "snd (process_pending_jobs now world s)"]
  show ?case by (simp add: t)
qed

text \<open>
  C3. Whatever calls of \<^verbatim>\<open>process_pending_jobs\<close> came before, the counter is at most the
  quota, which never changes; a call on the recorded day with the counter at the quota
  returns at once and leaves the scheduler and the store as they were; and a call selects
  at most \<open>min (remaining quota) 10\<close> pending jobs.
\<close>

theorem daily_counter_within_quota:
  assumes "0 \<le> daily_quota s0" and "current_day_processed s0 \<le> daily_quota s0"
    and "s = ticks ts s0"
  shows "current_day_processed s \<le> daily_quota s \<and> daily_quota s = daily_quota s0
       \<and> (day now = last_day s \<and> daily_quota s \<le> current_day_processed s
            \<longrightarrow> process_pending_jobs now world s = ([], s))
       \<and> int (length (selected_jobs now s))
            \<le> min (daily_quota s - current_day_processed (reset_daily_counter now s)) 10"
proof -
  from assms have ok: "within_quota s" and q: "daily_quota s = daily_quota s0"
    using within_quota_ticks [of s0 ts] by (simp_all add: within_quota_def)
  from ok have "within_quota (reset_daily_counter now s)" by (rule within_quota_reset)
  moreover have "daily_quota (reset_daily_counter now s) = daily_quota s"
    by (simp add: reset_daily_counter_def)
  ultimately have "0 \<le> min (daily_quota s - current_day_processed (reset_daily_counter now s)) 10"
    by (simp add: within_quota_def)
  with length_selected_jobs [of now s]
  have sel: "int (length (selected_jobs now s))
            \<le> min (daily_quota s - current_day_processed (reset_daily_counter now s)) 10"
    by simp
  have stop: "day now = last_day s \<and> daily_quota s \<le> current_day_processed s
            \<longrightarrow> process_pending_jobs now world s = ([], s)"
    by (simp add: process_pending_jobs_def reset_daily_counter_def)
  from ok q sel stop show ?thesis
    by (simp add: within_quota_def)
qed

theorem daily_counter_within_quota_witness:
  "0 \<le> daily_quota one_pending \<and> current_day_processed one_pending \<le> daily_quota one_pending
   \<and> current_day_processed (ticks [(jan15_later, quiet)] one_pending) \<le> 200
   \<and> int (length (selected_jobs jan16 (ticks [(jan15_later, quiet)] one_pending))) \<le> 10"
  using daily_counter_within_quota [of one_pending "ticks [(jan15_later, quiet)] one_pending"
      "[(jan15_later, quiet)]" jan16 quiet]
  by (simp add: one_pending_def scheduler_init_def)

subsection \<open>calculate\_mutual\_followers\<close>

lemma set_mutual_candidates:
  "set (mutual_candidates uid t)
     = (\<lambda>x. (uid, x)) ` (follower_targets uid t \<inter> following_targets uid t)"
  by (auto simp: mutual_candidates_def follower_targets_def following_targets_def image_iff)

lemma insert_mutuals_appends:
  "\<exists>new. snd (insert_mutuals es ms) = ms @ new \<and> distinct new
         \<and> set new = set es - set ms \<and> fst (insert_mutuals es ms) = length new"
proof (induction es arbitrary: ms)
  case Nil
  then show ?case by simp
next
  case (Cons e es)
  show ?case
  proof (cases "e \<in> set ms")
    case True
    from Cons.IH [of ms] obtain new where
      "snd (insert_mutuals es ms) = ms @ new" "distinct new" "set new = set es - set ms"
      "fst (insert_mutuals es ms) = length new" by blast
    with True show ?thesis by auto
  next
    case False
    from Cons.IH [of "ms @ [e]"] obtain new where new:
      "snd (insert_mutuals es (ms @ [e])) = (ms @ [e]) @ new" "distinct new"
      "set new = set es - set (ms @ [e])"
      "fst (insert_mutuals es (ms @ [e])) = length new" by blast
    have "snd (insert_mutuals (e # es) ms) = ms @ (e # new)"
      using False new(1) by (simp add: case_prod_unfold)
    moreover have "distinct (e # new)" using new(2,3) by auto
    moreover have "set (e # new) = set (e # es) - set ms" using False new(3) by auto
    moreover have "fst (insert_mutuals (e # es) ms) = length (e # new)"
      using False new(4) by (simp add: case_prod_unfold)
    ultimately show ?thesis by blast
  qed
qed

lemma insert_mutuals_present:
  "set es \<subseteq> set ms \<Longrightarrow> insert_mutuals es ms = (0, ms)"
  by (induction es) simp_all

lemma calculate_mutual_followers_found:
  assumes "find (\<lambda>r. username r = u) (users (work (db_conn sc))) = Some r"
  shows "calculate_mutual_followers u sc =
     \<lparr>returned = None,
      logged = Calculated_mutuals
                 (fst (insert_mutuals (mutual_candidates (user_id r) (work (db_conn sc)))
                                      (mutuals (work (db_conn sc))))) u,
      after = sc\<lparr>db_conn :=
                 \<lparr>work = (work (db_conn sc))
                      \<lparr>mutuals := snd (insert_mutuals (mutual_candidates (user_id r) (work (db_conn sc)))
                                                     (mutuals (work (db_conn sc))))\<rparr>,
                  durable = (work (db_conn sc))
                      \<lparr>mutuals := snd (insert_mutuals (mutual_candidates (user_id r) (work (db_conn sc)))
                                                     (mutuals (work (db_conn sc))))\<rparr>\<rparr>\<rparr>\<rparr>"
  using assms
  by (simp add: calculate_mutual_followers_def Let_def on_conn_def commit_def execute_def)

text \<open>
  C2, as stated, has \<^verbatim>\<open>calculate_mutual_followers\<close> return the count of the rows it
  inserted. On a store with one mutual account the call inserts one row and logs the
  count 1, and the value it returns is \<^verbatim>\<open>None\<close>, not 1.
\<close>

theorem mutual_count_not_returned:
  "mutuals (work (db_conn linked)) = []
   \<and> mutuals (work (db_conn (after (calculate_mutual_followers ''acct1'' linked)))) = [(''1'', ''a'')]
   \<and> logged (calculate_mutual_followers ''acct1'' linked) = Calculated_mutuals 1 ''acct1''
   \<and> returned (calculate_mutual_followers ''acct1'' linked) \<noteq> Some 1"
  by (simp add: calculate_mutual_followers_def linked_def linked_tables_def empty_tables_def
      user_data_def acct1_profile_def minimal_user_def acct_def mutual_candidates_def
      on_conn_def commit_def execute_def Let_def)

text \<open>
  C2, amended. For a target whose name is in the users table, with user id \<open>user_id r\<close>,
  \<^verbatim>\<open>calculate_mutual_followers\<close> appends one mutual row for each account in the
  intersection of the target's follower and following edge targets that has no mutual row
  yet, and nothing else; it logs the number of rows it inserted and returns \<^verbatim>\<open>None\<close>; the
  rows are committed; a second call on the result inserts nothing and logs 0; and an empty
  intersection (in particular an empty follower or following set) changes nothing and is
  no error.
\<close>

theorem mutuals_are_the_intersection:
  assumes "find (\<lambda>r. username r = u) (users (work (db_conn sc))) = Some r"
    and "res = calculate_mutual_followers u sc"
    and "t = work (db_conn sc)" and "t' = work (db_conn (after res))"
    and "both = follower_targets (user_id r) t \<inter> following_targets (user_id r) t"
  shows "(\<exists>new. mutuals t' = mutuals t @ new \<and> distinct new
            \<and> set new = (\<lambda>x. (user_id r, x)) ` both - set (mutuals t)
            \<and> logged res = Calculated_mutuals (length new) u)
       \<and> returned res = None
       \<and> durable (db_conn (after res)) = t'
       \<and> logged (calculate_mutual_followers u (after res)) = Calculated_mutuals 0 u
       \<and> work (db_conn (after (calculate_mutual_followers u (after res)))) = t'
       \<and> (both = {} \<longrightarrow> t' = t \<and> logged res = Calculated_mutuals 0 u)"
proof -
  let ?cs = "mutual_candidates (user_id r) t"
  let ?ins = "insert_mutuals ?cs (mutuals t)"
  note res = calculate_mutual_followers_found [OF assms(1)]
  have t': "t' = t\<lparr>mutuals := snd ?ins\<rparr>"
    and dur: "durable (db_conn (after res)) = t'"
    and lg: "logged res = Calculated_mutuals (fst ?ins) u"
    and ret: "returned res = None"
    using res assms(2,3,4) by simp_all
  from insert_mutuals_appends [of ?cs "mutuals t"] obtain new where new:
    "snd ?ins = mutuals t @ new" "distinct new" "set new = set ?cs - set (mutuals t)"
    "fst ?ins = length new" by blast
  have cs: "set ?cs = (\<lambda>x. (user_id r, x)) ` both"
    by (simp add: set_mutual_candidates assms(5))
  have first: "\<exists>new. mutuals t' = mutuals t @ new \<and> distinct new
            \<and> set new = (\<lambda>x. (user_id r, x)) ` both - set (mutuals t)
            \<and> logged res = Calculated_mutuals (length new) u"
    using new cs t' lg by auto
  have "users t' = users t" by (simp add: t')
  then have found': "find (\<lambda>r. username r = u) (users (work (db_conn (after res)))) = Some r"
    using assms(1) by (simp add: assms(3) [symmetric] assms(4) [symmetric])
  have cs': "mutual_candidates (user_id r) t' = ?cs"
    by (simp add: t' mutual_candidates_def)
  have sub: "set ?cs \<subseteq> set (mutuals t')"
    using new(1,3) t' by auto
  have again: "insert_mutuals (mutual_candidates (user_id r) t') (mutuals t') = (0, mutuals t')"
    using insert_mutuals_present [OF sub] cs' by simp
  note res2 = calculate_mutual_followers_found [OF found']
  have second: "logged (calculate_mutual_followers u (after res)) = Calculated_mutuals 0 u"
    and same: "work (db_conn (after (calculate_mutual_followers u (after res)))) = t'"
    using res2 again assms(4) by simp_all
  have empty: "both = {} \<longrightarrow> t' = t \<and> logged res = Calculated_mutuals 0 u"
  proof
    assume "both = {}"
    with cs have "?cs = []" by simp
    then show "t' = t \<and> logged res = Calculated_mutuals 0 u"
      using t' lg by simp
  qed
  from first ret dur second same empty show ?thesis by blast
qed

theorem mutuals_are_the_intersection_witness:
  "find (\<lambda>r. username r = ''acct1'') (users (work (db_conn linked))) = Some (user_data acct1_profile)
   \<and> follower_targets ''1'' linked_tables \<inter> following_targets ''1'' linked_tables = {''a''}
   \<and> returned (calculate_mutual_followers ''acct1'' linked) = None
   \<and> logged (calculate_mutual_followers ''acct1''
               (after (calculate_mutual_followers ''acct1'' linked)))
       = Calculated_mutuals 0 ''acct1''"
  using mutuals_are_the_intersection [of "''acct1''" linked "user_data acct1_profile"
      "calculate_mutual_followers ''acct1'' linked" linked_tables
      "work (db_conn (after (calculate_mutual_followers ''acct1'' linked)))"
      "follower_targets ''1'' linked_tables \<inter> following_targets ''1'' linked_tables"]
  by (simp add: linked_def linked_tables_def empty_tables_def user_data_def acct1_profile_def
      minimal_user_def acct_def follower_targets_def following_targets_def)

subsection \<open>\_store\_interest\_results\<close>

lemma filter_map_fixed:
  "(\<And>x. P (f x) = P x) \<Longrightarrow> (\<And>x. P x \<Longrightarrow> f x = x) \<Longrightarrow> filter P (map f xs) = filter P xs"
  by (induction xs) auto

lemma upsert_interest_hit:
  "(uid, cid) \<in> set (map (\<lambda>r. (i_user_id r, category_id r)) rows) \<Longrightarrow>
   upsert_interest uid cid conf now rows
     = map (\<lambda>r. if i_user_id r = uid \<and> category_id r = cid
                  then r\<lparr>confidence_score := conf, created_at := now\<rparr> else r) rows"
  by (simp only: upsert_interest_def if_True)

lemma upsert_interest_miss:
  "(uid, cid) \<notin> set (map (\<lambda>r. (i_user_id r, category_id r)) rows) \<Longrightarrow>
   upsert_interest uid cid conf now rows
     = rows @ [\<lparr>i_user_id = uid, category_id = cid, confidence_score = conf, created_at = now\<rparr>]"
  by (simp only: upsert_interest_def if_False)

lemma map_key_update:
  "map (\<lambda>r. (i_user_id r, category_id r))
          (map (\<lambda>r. if i_user_id r = uid \<and> category_id r = cid
                     then r\<lparr>confidence_score := conf, created_at := now\<rparr> else r) rows)
        = map (\<lambda>r. (i_user_id r, category_id r)) rows"
  by (induction rows) simp_all

lemma upsert_interest_keys:
  "set (map (\<lambda>r. (i_user_id r, category_id r)) (upsert_interest uid cid conf now rows))
     = insert (uid, cid) (set (map (\<lambda>r. (i_user_id r, category_id r)) rows))"
proof (cases "(uid, cid) \<in> set (map (\<lambda>r. (i_user_id r, category_id r)) rows)")
  case True
  then have "insert (uid, cid) (set (map (\<lambda>r. (i_user_id r, category_id r)) rows))
             = set (map (\<lambda>r. (i_user_id r, category_id r)) rows)"
    by (rule insert_absorb)
  then show ?thesis
    by (simp only: upsert_interest_hit [OF True] map_key_update)
next
  case False
  show ?thesis
    by (simp add: upsert_interest_miss [OF False])
qed

lemma upsert_interest_row:
  assumes "r \<in> set (upsert_interest uid cid conf now rows)"
    and "i_user_id r = uid" and "category_id r = cid"
  shows "confidence_score r = conf \<and> created_at r = now"
proof (cases "(uid, cid) \<in> set (map (\<lambda>r. (i_user_id r, category_id r)) rows)")
  case True
  from assms(1) obtain r0 where r0: "r0 \<in> set rows"
    and r: "r = (if i_user_id r0 = uid \<and> category_id r0 = cid
                 then r0\<lparr>confidence_score := conf, created_at := now\<rparr> else r0)"
    unfolding upsert_interest_hit [OF True] set_map by blast
  show ?thesis
  proof (cases "i_user_id r0 = uid \<and> category_id r0 = cid")
    case True
    with r show ?thesis by simp
  next
    case False
    with r assms(2,3) show ?thesis by simp
  qed
next
  case False
  define fresh where
    "fresh = \<lparr>i_user_id = uid, category_id = cid, confidence_score = conf, created_at = now\<rparr>"
  have "upsert_interest uid cid conf now rows = rows @ [fresh]"
    unfolding fresh_def by (rule upsert_interest_miss [OF False])
  with assms(1) have "r \<in> set rows \<or> r = fresh" by auto
  then show ?thesis
  proof
    assume "r \<in> set rows"
    then have "(i_user_id r, category_id r) \<in> set (map (\<lambda>r. (i_user_id r, category_id r)) rows)"
      by (simp add: image_iff) blast
    with False assms(2,3) show ?thesis by simp
  next
    assume "r = fresh"
    then show ?thesis by (simp add: fresh_def)
  qed
qed

lemma upsert_interest_other:
  assumes "(uid', cid') \<noteq> (uid, cid)"
  shows "filter (\<lambda>r. i_user_id r = uid' \<and> category_id r = cid') (upsert_interest uid cid conf now rows)
       = filter (\<lambda>r. i_user_id r = uid' \<and> category_id r = cid') rows"
proof (cases "(uid, cid) \<in> set (map (\<lambda>r. (i_user_id r, category_id r)) rows)")
  case True
  have "filter (\<lambda>r. i_user_id r = uid' \<and> category_id r = cid')
          (map (\<lambda>r. if i_user_id r = uid \<and> category_id r = cid
                     then r\<lparr>confidence_score := conf, created_at := now\<rparr> else r) rows)
        = filter (\<lambda>r. i_user_id r = uid' \<and> category_id r = cid') rows"
  proof (rule filter_map_fixed)
    fix x :: interest_row
    show "(i_user_id (if i_user_id x = uid \<and> category_id x = cid
                      then x\<lparr>confidence_score := conf, created_at := now\<rparr> else x) = uid'
           \<and> category_id (if i_user_id x = uid \<and> category_id x = cid
                      then x\<lparr>confidence_score := conf, created_at := now\<rparr> else x) = cid')
          = (i_user_id x = uid' \<and> category_id x = cid')"
      by simp
    assume "i_user_id x = uid' \<and> category_id x = cid'"
    with assms show "(if i_user_id x = uid \<and> category_id x = cid
                      then x\<lparr>confidence_score := conf, created_at := now\<rparr> else x) = x"
      by auto
  qed
  then show ?thesis
    by (simp only: upsert_interest_hit [OF True])
next
  case False
  from assms show ?thesis
    unfolding upsert_interest_miss [OF False] by auto
qed

lemma store_one_skip:
  "category_of m r = None \<Longrightarrow> store_one uid m now r c = c"
  by (simp add: store_one_def)

lemma fold_store_one_filter:
  "fold (store_one uid m now) rs c
     = fold (store_one uid m now) (filter (\<lambda>r. category_of m r \<noteq> None) rs) c"
  by (induction rs arbitrary: c) (auto simp: store_one_skip)

lemma store_one_keys:
  "interest_keys (work (store_one uid m now r c))
     = (case category_of m r of None \<Rightarrow> {} | Some cid \<Rightarrow> {(uid, cid)}) \<union> interest_keys (work c)"
proof (cases "category_of m r")
  case None
  then show ?thesis by (simp add: store_one_def)
next
  case (Some cid)
  with upsert_interest_keys [of uid cid "confidence_of r" now "interests (work c)"]
  show ?thesis by (simp add: store_one_def interest_keys_def execute_def)
qed

lemma fold_store_one_keys:
  "interest_keys (work (fold (store_one uid m now) rs c))
     = {(uid, cid) |cid. \<exists>r \<in> set rs. category_of m r = Some cid} \<union> interest_keys (work c)"
proof (induction rs arbitrary: c)
  case Nil
  then show ?case by simp
next
  case (Cons r rs)
  show ?case
    by (cases "category_of m r") (auto simp: Cons.IH store_one_keys)
qed

lemma store_one_last:
  assumes "category_of m r = Some cid"
    and "x \<in> set (interests (work (store_one uid m now r c)))"
    and "i_user_id x = uid" and "category_id x = cid"
  shows "confidence_score x = confidence_of r \<and> created_at x = now"
  using assms upsert_interest_row [of x uid cid "confidence_of r" now "interests (work c)"]
  by (simp add: store_one_def execute_def)

lemma store_one_keeps:
  assumes "category_of m r \<noteq> Some cid"
  shows "filter (\<lambda>x. i_user_id x = uid \<and> category_id x = cid) (interests (work (store_one uid m now r c)))
       = filter (\<lambda>x. i_user_id x = uid \<and> category_id x = cid) (interests (work c))"
proof (cases "category_of m r")
  case None
  then show ?thesis by (simp add: store_one_def)
next
  case (Some cid')
  with assms have "(uid, cid) \<noteq> (uid, cid')" by simp
  from upsert_interest_other [OF this] Some show ?thesis
    by (simp add: store_one_def execute_def)
qed

lemma fold_store_one_keeps:
  "\<forall>r \<in> set rs. category_of m r \<noteq> Some cid \<Longrightarrow>
   filter (\<lambda>x. i_user_id x = uid \<and> category_id x = cid) (interests (work (fold (store_one uid m now) rs c)))
     = filter (\<lambda>x. i_user_id x = uid \<and> category_id x = cid) (interests (work c))"
  by (induction rs arbitrary: c) (simp_all add: store_one_keeps)

lemma fold_store_one_last:
  assumes "category_of m r = Some cid"
    and "\<forall>r' \<in> set post. category_of m r' \<noteq> Some cid"
    and "x \<in> set (interests (work (fold (store_one uid m now) (pre @ r # post) c)))"
    and "i_user_id x = uid" and "category_id x = cid"
  shows "confidence_score x = confidence_of r \<and> created_at x = now"
proof -
  let ?c1 = "store_one uid m now r (fold (store_one uid m now) pre c)"
  let ?P = "\<lambda>x. i_user_id x = uid \<and> category_id x = cid"
  from assms(3,4,5) have "x \<in> set (filter ?P (interests (work (fold (store_one uid m now) post ?c1))))"
    by simp
  with fold_store_one_keeps [OF assms(2), of uid now ?c1]
  have "x \<in> set (interests (work ?c1))" by simp
  from store_one_last [OF assms(1) this assms(4,5)] show ?thesis .
qed

text \<open>
  C8. Storing a batch of classification results is the same as storing the batch without
  the results whose category is no key of the category mapping (the comparison is equality
  of strings): such a result adds no interest row and stops nothing. The keys present
  afterwards are those present before and, for the given user, the category of every other
  result; the row of such a key carries the confidence and timestamp of the last result of
  the batch with that category; and the whole is committed.
\<close>

theorem unknown_categories_are_discarded:
  assumes "c' = store_interest_results uid results m now c"
  shows "c' = store_interest_results uid (filter (\<lambda>r. category_of m r \<noteq> None) results) m now c
       \<and> durable c' = work c'
       \<and> interest_keys (work c')
           = {(uid, cid) |cid. \<exists>r \<in> set results. category_of m r = Some cid} \<union> interest_keys (work c)
       \<and> (\<forall>pre r post cid x.
             results = pre @ r # post \<and> category_of m r = Some cid
             \<and> (\<forall>r' \<in> set post. category_of m r' \<noteq> Some cid)
             \<and> x \<in> set (interests (work c')) \<and> i_user_id x = uid \<and> category_id x = cid
             \<longrightarrow> confidence_score x = confidence_of r \<and> created_at x = now)"
proof -
  have a: "c' = store_interest_results uid (filter (\<lambda>r. category_of m r \<noteq> None) results) m now c"
    using assms fold_store_one_filter [of uid m now results c]
    by (simp add: store_interest_results_def)
  have b: "durable c' = work c'"
    using assms by (simp add: store_interest_results_def commit_def)
  have w: "work c' = work (fold (store_one uid m now) results c)"
    using assms by (simp add: store_interest_results_def commit_def)
  have k: "interest_keys (work c')
           = {(uid, cid) |cid. \<exists>r \<in> set results. category_of m r = Some cid} \<union> interest_keys (work c)"
    by (simp add: w fold_store_one_keys)
  have l: "\<forall>pre r post cid x.
             results = pre @ r # post \<and> category_of m r = Some cid
             \<and> (\<forall>r' \<in> set post. category_of m r' \<noteq> Some cid)
             \<and> x \<in> set (interests (work c')) \<and> i_user_id x = uid \<and> category_id x = cid
             \<longrightarrow> confidence_score x = confidence_of r \<and> created_at x = now"
  proof (intro allI impI)
    fix pre r post cid x
    assume h: "results = pre @ r # post \<and> category_of m r = Some cid
             \<and> (\<forall>r' \<in> set post. category_of m r' \<noteq> Some cid)
             \<and> x \<in> set (interests (work c')) \<and> i_user_id x = uid \<and> category_id x = cid"
    then have "results = pre @ r # post" and "x \<in> set (interests (work c'))"
      by simp_all
    then have "x \<in> set (interests (work (fold (store_one uid m now) (pre @ r # post) c)))"
      by (simp only: w)
    with h show "confidence_score x = confidence_of r \<and> created_at x = now"
      by (intro fold_store_one_last [of m r cid post x uid now pre c]) simp_all
  qed
  from a b k l show ?thesis by blast
qed

theorem unknown_categories_are_discarded_witness:
  "category_of small_taxonomy (mixed_batch ! 1) = None
   \<and> map (\<lambda>r. (i_user_id r, category_id r, confidence_score r))
         (interests (work (store_interest_results ''1'' mixed_batch small_taxonomy jan15 (db_conn profiled))))
       = [(''1'', 1, Some (9 / 10)), (''1'', 2, Some (1 / 2))]
   \<and> interest_keys (work (store_interest_results ''1'' mixed_batch small_taxonomy jan15 (db_conn profiled)))
       = {(''1'', 1), (''1'', 2)}"
  using unknown_categories_are_discarded [of
      "store_interest_results ''1'' mixed_batch small_taxonomy jan15 (db_conn profiled)"
      "''1''" mixed_batch small_taxonomy jan15 "db_conn profiled"]
  by (simp add: store_interest_results_def store_one_def category_of_def confidence_of_def
      small_taxonomy_def mixed_batch_def upsert_interest_def execute_def commit_def
      profiled_def empty_tables_def interest_keys_def)

subsection \<open>get\_followers and get\_following\<close>

lemma has_user_add_minimal_user:
  "has_user uid t \<Longrightarrow> has_user uid (add_minimal_user x t)"
  by (simp add: has_user_def add_minimal_user_def insert_user_if_absent_def)

lemma has_user_listed: "has_user (n_userid x) (add_minimal_user x t)"
  by (simp add: has_user_def add_minimal_user_def insert_user_if_absent_def minimal_user_def)

lemma users_store_edge: "users (store_edge d e t) = users t"
  by (cases d) simp_all

lemma add_edge_ok:
  assumes "has_user uid t"
  shows "add_edge d (uid, n_userid x) (add_minimal_user x t)
           = Inr (store_edge d (uid, n_userid x) (add_minimal_user x t))"
  using has_user_add_minimal_user [OF assms, of x] has_user_listed [of x t]
  by (simp add: add_edge_def references_ok_def has_user_def)

lemma loop_body_ok:
  assumes "has_user uid (work c)"
  shows "loop_body d j uid x n c = Inr (body_done d j uid x n c)"
  using add_edge_ok [OF assms, of d x]
  by (simp add: loop_body_def body_done_def Let_def execute_def)

lemma has_user_body_done:
  assumes "has_user uid (work c)"
  shows "has_user uid (work (body_done d j uid x n c))"
  using has_user_add_minimal_user [OF assms, of x]
  by (simp add: body_done_def Let_def execute_def commit_def has_user_def users_store_edge
      update_job_def)

lemma has_user_items_done:
  "has_user uid (work c) \<Longrightarrow> has_user uid (work (items_done d j uid xs n c))"
  by (induction xs arbitrary: n c) (simp_all add: has_user_body_done)

text \<open>With a users row for the target no turn raises, and the loop runs until the list is
  exhausted or the limit is reached.\<close>

lemma listing_loop_ok:
  assumes "has_user uid (work c)"
    and "\<And>i. n < i \<Longrightarrow> i < n + length ys \<Longrightarrow> \<not> limit_reached mc i"
  shows "listing_loop d j uid mc ys n c
           = Inr (ys \<noteq> [] \<and> limit_reached mc (n + length ys), n + length ys,
                  items_done d j uid ys n c)"
  using assms
proof (induction ys arbitrary: n c)
  case Nil
  then show ?case by simp
next
  case (Cons y ys)
  note body = loop_body_ok [OF Cons.prems(1), of d j y n]
  note user = has_user_body_done [OF Cons.prems(1), of d j y n]
  show ?case
  proof (cases ys)
    case Nil
    with body show ?thesis by simp
  next
    case (Cons z zs)
    then have "\<not> limit_reached mc (Suc n)"
      using Cons.prems(2) [of "Suc n"] by simp
    moreover have "listing_loop d j uid mc ys (Suc n) (body_done d j uid y n c)
           = Inr (ys \<noteq> [] \<and> limit_reached mc (Suc n + length ys), Suc n + length ys,
                  items_done d j uid ys (Suc n) (body_done d j uid y n c))"
      using user
    proof (rule Cons.IH)
      fix i assume "Suc n < i" and "i < Suc n + length ys"
      then show "\<not> limit_reached mc i"
        using Cons.prems(2) [of i] by simp
    qed
    ultimately show ?thesis
      using body Cons by simp
  qed
qed

lemma within_limit_before:
  assumes "within_limit mc k" and "0 < i" and "i < k"
  shows "\<not> limit_reached mc i"
  using assms by (auto simp: within_limit_def limit_reached_def split: option.splits)

lemma within_limit_less: "within_limit mc k \<Longrightarrow> k' \<le> k \<Longrightarrow> within_limit mc k'"
  by (auto simp: within_limit_def split: option.splits)

lemma listing_loop_limited:
  "0 < N \<Longrightarrow> int n < N \<Longrightarrow> has_user uid (work c) \<Longrightarrow>
     listing_loop d j uid (Some N) xs n c
       = Inr (nat N \<le> n + length xs, min (nat N) (n + length xs),
              items_done d j uid (take (nat N - n) xs) n c)"
proof (induction xs arbitrary: n c)
  case Nil
  then show ?case by simp
next
  case (Cons x xs)
  note body = loop_body_ok [OF Cons.prems(3), of d j x n]
  note user = has_user_body_done [OF Cons.prems(3), of d j x n]
  show ?case
  proof (cases "N \<le> int (Suc n)")
    case True
    with Cons.prems have "nat N = Suc n" by linarith
    with True Cons.prems body show ?thesis
      by (simp add: limit_reached_def)
  next
    case False
    then have lt: "int (Suc n) < N" by simp
    then have "nat N - n = Suc (nat N - Suc n)" by linarith
    with False Cons.IH [OF Cons.prems(1) lt user] body show ?thesis
      by (simp add: limit_reached_def)
  qed
qed

lemma items_done_snoc:
  "items_done d j uid (xs @ [x]) n c
     = body_done d j uid x (n + length xs) (items_done d j uid xs n c)"
  by (induction xs arbitrary: n c) simp_all

lemma edges_add_minimal_user: "edges d (add_minimal_user x t) = edges d t"
  by (cases d) (simp_all add: add_minimal_user_def)

lemma edges_update_job: "edges d (update_job j f t) = edges d t"
  by (cases d) (simp_all add: update_job_def)

lemma edges_store_edge: "edges d (store_edge d e t) = insert_edge e (edges d t)"
  by (cases d) simp_all

lemma edges_body_done:
  "edges d (work (body_done d j uid x n c)) = insert_edge (uid, n_userid x) (edges d (work c))"
  by (simp add: body_done_def Let_def execute_def commit_def edges_store_edge
      edges_update_job edges_add_minimal_user)

lemma edges_items_done:
  "edges d (work (items_done d j uid xs n c))
     = fold insert_edge (edge_rows uid xs) (edges d (work c))"
  by (induction xs arbitrary: n c) (simp_all add: edge_rows_def edges_body_done)

lemma fold_insert_edge_fresh:
  "distinct es \<Longrightarrow> set es \<inter> set E = {} \<Longrightarrow> fold insert_edge es E = E @ es"
  by (induction es arbitrary: E) (auto simp: insert_edge_def)

lemma job_ids_update_job:
  "(\<And>r. job_id (f r) = job_id r) \<Longrightarrow>
     map job_id (scrape_jobs (update_job j f t)) = map job_id (scrape_jobs t)"
  by (simp add: update_job_def comp_def if_distrib [of job_id] cong: if_cong)

lemma job_ids_body_done:
  "map job_id (scrape_jobs (work (body_done d j uid x n c))) = map job_id (scrape_jobs (work c))"
proof -
  have a: "scrape_jobs (store_edge d e (add_minimal_user x t)) = scrape_jobs t" for e t
    by (cases d) (simp_all add: add_minimal_user_def)
  have b: "map job_id (scrape_jobs (update_job j (set_processed k) t)) = map job_id (scrape_jobs t)" for k t
    by (rule job_ids_update_job) (simp add: set_processed_def)
  show ?thesis
    by (simp add: body_done_def Let_def execute_def commit_def a b)
qed

lemma job_ids_items_done:
  "map job_id (scrape_jobs (work (items_done d j uid xs n c))) = map job_id (scrape_jobs (work c))"
  by (induction xs arbitrary: n c) (simp_all add: job_ids_body_done)

lemma initialize_instaloader_ok:
  "insta_loader sc \<or> login env = None \<Longrightarrow>
     \<exists>sc1. initialize_instaloader env sc = (Inr (), sc1) \<and> db_conn sc1 = db_conn sc"
  by (auto simp: initialize_instaloader_def)

lemma edges_insert_job: "edges d (insert_job u ty st beg t) = edges d t"
  by (cases d) (simp_all add: insert_job_def)

lemma work_start_job:
  "work (start_job d u t c) = insert_job u (job_type_of d) ''in_progress'' (Some t) (work c)"
  by (simp add: start_job_def commit_def execute_def)

lemma has_user_start_job: "has_user uid (work c) \<Longrightarrow> has_user uid (work (start_job d u t c))"
  by (simp add: work_start_job has_user_def insert_job_def)

lemma work_complete_job:
  "work (complete_job j t n c) = update_job j (set_completed t n) (work c)"
  by (simp add: complete_job_def commit_def execute_def)

lemma durable_complete_job: "durable (complete_job j t n c) = work (complete_job j t n c)"
  by (simp add: complete_job_def commit_def)

lemma fetch_list_limited:
  assumes "0 < N" and "insta_loader sc \<or> login env = None" and "lookup env = Inr p"
    and "listing_error env = None \<or> nat N \<le> length (listing env)"
    and "has_user (p_userid p) (work (db_conn sc))"
  shows "\<exists>sc1. db_conn sc1 = db_conn sc \<and>
     fetch_list d env u (Some N) sc
       = (Inr (), sc1\<lparr>db_conn :=
            complete_job (job_seq (work (db_conn sc))) (finished env)
              (min (nat N) (length (listing env)))
              (items_done d (job_seq (work (db_conn sc))) (p_userid p)
                 (take (nat N) (listing env)) 0
                 (start_job d u (started env) (db_conn sc)))\<rparr>)"
proof -
  from initialize_instaloader_ok [OF assms(2)] obtain sc1 where
    init: "initialize_instaloader env sc = (Inr (), sc1)" and conn: "db_conn sc1 = db_conn sc"
    by blast
  have loop: "listing_loop d (job_seq (work (db_conn sc))) (p_userid p) (Some N) (listing env) 0
                (start_job d u (started env) (db_conn sc))
              = Inr (nat N \<le> length (listing env), min (nat N) (length (listing env)),
                 items_done d (job_seq (work (db_conn sc))) (p_userid p)
                   (take (nat N) (listing env)) 0 (start_job d u (started env) (db_conn sc)))"
    using listing_loop_limited [OF assms(1) _ has_user_start_job [OF assms(5)], of 0] assms(1)
    by simp
  have "fetch_list d env u (Some N) sc
       = (Inr (), sc1\<lparr>db_conn :=
            complete_job (job_seq (work (db_conn sc))) (finished env)
              (min (nat N) (length (listing env)))
              (items_done d (job_seq (work (db_conn sc))) (p_userid p)
                 (take (nat N) (listing env)) 0
                 (start_job d u (started env) (db_conn sc)))\<rparr>)"
    using assms(3,4) by (auto simp: fetch_list_def init conn Let_def loop)
  with conn show ?thesis by blast
qed

lemmas eval_fetch =
  get_followers_def fetch_list_def initialize_instaloader_def start_job_def complete_job_def
  calm_def acct_def acct1_profile_def user_data_def minimal_user_def limit_reached_def
  loop_body_def add_edge_def references_ok_def add_minimal_user_def insert_user_if_absent_def
  insert_edge_def insert_job_def new_job_def update_job_def set_completed_def set_processed_def
  lose_transaction_def execute_def commit_def empty_tables_def empty_conn_def Let_def

text \<open>
  C5, as stated, includes \<open>N = 0\<close> and listings with an account that already has an
  edge. With \<^verbatim>\<open>max_count = 0\<close> and two listed accounts the fetch inserts two edges and
  records \<^verbatim>\<open>total_items = processed_items = 2\<close>, not \<open>min 0 2 = 0\<close>: the test
  \<^verbatim>\<open>if max_count and ...\<close> takes 0 for no limit. With \<^verbatim>\<open>max_count = 2\<close>, two listed
  accounts and an edge to the first already stored, one edge is inserted, not two. And
  with \<^verbatim>\<open>max_count = 1\<close> on a store in which the target has no users row, the insert of the
  first edge violates the foreign key: the fetch raises, inserts no edge, and its job
  stays in progress.
\<close>

theorem bounded_fetch_boundary_cases:
  "followers (work (db_conn profiled)) = []
   \<and> followers (work (db_conn (snd (get_followers (calm [acct ''a'', acct ''b'']) ''acct1'' (Some 0) profiled))))
       = [(''1'', ''a''), (''1'', ''b'')]
   \<and> map (\<lambda>r. (status r, total_items r, processed_items r))
        (scrape_jobs (work (db_conn (snd (get_followers (calm [acct ''a'', acct ''b'']) ''acct1'' (Some 0) profiled)))))
       = [(''completed'', Some 2, 2)]
   \<and> followers (work (db_conn linked)) = [(''1'', ''a'')]
   \<and> followers (work (db_conn (snd (get_followers (calm [acct ''a'', acct ''b'']) ''acct1'' (Some 2) linked))))
       = [(''1'', ''a''), (''1'', ''b'')]
   \<and> fst (get_followers (calm [acct ''a'', acct ''b'']) ''acct1'' (Some 1) bare)
       = Inl InFailedSqlTransaction
   \<and> followers (work (db_conn (snd (get_followers (calm [acct ''a'', acct ''b'']) ''acct1'' (Some 1) bare))))
       = []
   \<and> map (\<lambda>r. (status r, total_items r, processed_items r))
        (scrape_jobs (work (db_conn (snd (get_followers (calm [acct ''a'', acct ''b'']) ''acct1'' (Some 1) bare)))))
       = [(''in_progress'', None, 0)]"
  by (simp add: profiled_def linked_def linked_tables_def bare_def eval_fetch)

text \<open>
  C5, amended. A followers or following fetch with \<^verbatim>\<open>max_count = N\<close>, \<open>N \<ge> 1\<close>, for a target
  that has a users row, whose login and profile lookup succeed and whose listing raises
  nothing among its first \<open>N\<close> accounts, processes the first
  \<open>k = min N (length listing)\<close> accounts: it returns without error, the edge table
  afterwards is the table before with the edge of each of these accounts inserted unless
  present, so exactly \<open>k\<close> edges are inserted when the accounts are distinct and none has
  an edge yet; the job record of the fetch is completed with
  \<^verbatim>\<open>total_items = processed_items = k\<close>; and all of it is committed.
\<close>

theorem bounded_fetch_processes_min:
  assumes "0 < N" and "insta_loader sc \<or> login env = None" and "lookup env = Inr p"
    and "listing_error env = None \<or> nat N \<le> length (listing env)"
    and "has_user (p_userid p) (work (db_conn sc))"
    and "k = min (nat N) (length (listing env))"
    and "new = edge_rows (p_userid p) (take k (listing env))"
    and "t = work (db_conn sc)"
    and "t' = work (db_conn (snd (fetch_list d env u (Some N) sc)))"
  shows "fst (fetch_list d env u (Some N) sc) = Inr ()
       \<and> edges d t' = fold insert_edge new (edges d t)
       \<and> (distinct new \<and> set new \<inter> set (edges d t) = {} \<longrightarrow> edges d t' = edges d t @ new)
       \<and> length new = k
       \<and> (\<exists>row \<in> set (scrape_jobs t'). job_id row = job_seq t)
       \<and> (\<forall>row \<in> set (scrape_jobs t'). job_id row = job_seq t \<longrightarrow>
             status row = ''completed'' \<and> total_items row = Some k \<and> processed_items row = k)
       \<and> durable (db_conn (snd (fetch_list d env u (Some N) sc))) = t'"
proof -
  let ?j = "job_seq t"
  let ?c1 = "start_job d u (started env) (db_conn sc)"
  let ?c2 = "items_done d ?j (p_userid p) (take (nat N) (listing env)) 0 ?c1"
  from fetch_list_limited [OF assms(1-5), of d u] obtain sc1 where
    run: "fetch_list d env u (Some N) sc
            = (Inr (), sc1\<lparr>db_conn := complete_job ?j (finished env) k ?c2\<rparr>)"
    by (auto simp: assms(6,8))
  have tk: "take (nat N) (listing env) = take k (listing env)"
    by (simp add: assms(6) min_def)
  have t': "t' = update_job ?j (set_completed (finished env) k) (work ?c2)"
    by (simp add: assms(9) run work_complete_job)
  have a: "fst (fetch_list d env u (Some N) sc) = Inr ()"
    by (simp add: run)
  have b: "edges d t' = fold insert_edge new (edges d t)"
    by (simp add: t' edges_update_job edges_items_done work_start_job edges_insert_job
        tk assms(7,8))
  have c: "distinct new \<and> set new \<inter> set (edges d t) = {} \<longrightarrow> edges d t' = edges d t @ new"
    using fold_insert_edge_fresh [of new "edges d t"] b by simp
  have d: "length new = k"
    by (simp add: assms(6,7) edge_rows_def)
  have ids: "map job_id (scrape_jobs (work ?c2)) = map job_id (scrape_jobs t) @ [?j]"
    by (simp add: job_ids_items_done work_start_job insert_job_def new_job_def assms(8))
  then have "?j \<in> set (map job_id (scrape_jobs (work ?c2)))" by simp
  then obtain row0 where row0: "row0 \<in> set (scrape_jobs (work ?c2))" "job_id row0 = ?j"
    by auto
  then have "set_completed (finished env) k row0 \<in> set (scrape_jobs t')"
    by (auto simp: t' update_job_def)
  moreover have "job_id (set_completed (finished env) k row0) = ?j"
    using row0(2) by (simp add: set_completed_def)
  ultimately have e: "\<exists>row \<in> set (scrape_jobs t'). job_id row = ?j"
    by blast
  have f: "\<forall>row \<in> set (scrape_jobs t'). job_id row = ?j \<longrightarrow>
             status row = ''completed'' \<and> total_items row = Some k \<and> processed_items row = k"
    by (auto simp: t' update_job_def set_completed_def split: if_splits)
  have g: "durable (db_conn (snd (fetch_list d env u (Some N) sc))) = t'"
    by (simp add: assms(9) run durable_complete_job)
  from a b c d e f g show ?thesis by blast
qed

theorem bounded_fetch_processes_min_witness:
  "(0::int) < 1 \<and> insta_loader profiled
   \<and> lookup (calm [acct ''a'', acct ''b'']) = Inr acct1_profile
   \<and> listing_error (calm [acct ''a'', acct ''b'']) = None
   \<and> has_user (p_userid acct1_profile) (work (db_conn profiled))
   \<and> followers (work (db_conn (snd (fetch_list Followers (calm [acct ''a'', acct ''b'']) ''acct1'' (Some 1) profiled))))
       = [(''1'', ''a'')]"
  using bounded_fetch_processes_min [where N = 1 and sc = profiled
      and env = "calm [acct ''a'', acct ''b'']" and p = acct1_profile and k = 1
      and new = "[(''1'', ''a'')]" and t = "work (db_conn profiled)"
      and t' = "work (db_conn (snd (fetch_list Followers (calm [acct ''a'', acct ''b'']) ''acct1'' (Some 1) profiled)))"
      and d = Followers and u = "''acct1''"]
  by (simp add: profiled_def calm_def acct_def acct1_profile_def edge_rows_def empty_tables_def
      insert_edge_def has_user_def user_data_def)

lemma body_done_checkpoint:
  "Suc n mod 10 = 0 \<Longrightarrow>
     durable (body_done d j uid x n c) = work (body_done d j uid x n c)"
  by (simp add: body_done_def Let_def commit_def)

lemma body_done_no_checkpoint:
  "Suc n mod 10 \<noteq> 0 \<Longrightarrow> durable (body_done d j uid x n c) = durable c"
  by (simp add: body_done_def Let_def execute_def)

lemma durable_start_job: "durable (start_job d u t c) = work (start_job d u t c)"
  by (simp add: start_job_def commit_def)

lemma durable_fail_job: "durable (fail_job j msg c) = work (fail_job j msg c)"
  by (simp add: fail_job_def commit_def)

lemma step_after:
  assumes k: "k < length xs"
  shows "items_done d j uid (take (Suc k) xs) 0 c
              = body_done d j uid (xs ! k) k (items_done d j uid (take k xs) 0 c)"
proof -
  have "take (Suc k) xs = take k xs @ [xs ! k]"
    using k by (rule take_Suc_conv_app_nth)
  then have "items_done d j uid (take (Suc k) xs) 0 c
       = body_done d j uid (xs ! k) (0 + length (take k xs)) (items_done d j uid (take k xs) 0 c)"
    by (simp only: items_done_snoc)
  moreover have "0 + length (take k xs) = k"
    using k by simp
  ultimately show ?thesis by (simp only:)
qed

lemma committed_prefix_Suc:
  assumes "Suc k mod 10 \<noteq> 0"
  shows "Suc k - Suc k mod 10 = k - k mod 10"
proof -
  from assms have "Suc k mod 10 = Suc (k mod 10)"
    by (simp add: mod_Suc split: if_splits)
  then show ?thesis
    by (simp only: diff_Suc_Suc)
qed

lemma durable_items_done:
  assumes "durable c = work c"
  shows "k \<le> length xs \<Longrightarrow>
     durable (items_done d j uid (take k xs) 0 c)
       = work (items_done d j uid (take (k - k mod 10) xs) 0 c)"
proof (induction k)
  case 0
  have "items_done d j uid (take 0 xs) 0 c = c" by simp
  moreover have "take (0 - 0 mod 10) xs = take 0 xs" by simp
  ultimately show ?case using assms by (simp only:)
next
  case (Suc k)
  from Suc.prems have k: "k < length xs" by (rule Suc_le_lessD)
  then have "k \<le> length xs" by (rule less_imp_le)
  then have IH: "durable (items_done d j uid (take k xs) 0 c)
            = work (items_done d j uid (take (k - k mod 10) xs) 0 c)"
    by (rule Suc.IH)
  note step = step_after [OF k, of d j uid c]
  show ?case
  proof (cases "Suc k mod 10 = 0")
    case True
    have whole: "Suc k - Suc k mod 10 = Suc k"
      unfolding True by (rule diff_zero)
    show ?thesis
      unfolding whole step by (rule body_done_checkpoint [OF True])
  next
    case False
    show ?thesis
      unfolding committed_prefix_Suc [OF False] step body_done_no_checkpoint [OF False]
      by (rule IH)
  qed
qed

text \<open>The loop over the first \<open>k\<close> accounts of a listing, when the limit lets it take
  them.\<close>

lemma listing_loop_prefix:
  assumes "has_user uid (work c)" and "k \<le> length xs" and "within_limit mc k"
  shows "listing_loop d j uid mc (take k xs) 0 c
           = Inr (0 < k \<and> limit_reached mc k, k, items_done d j uid (take k xs) 0 c)"
proof -
  have len: "length (take k xs) = k"
    using assms(2) by simp
  have "listing_loop d j uid mc (take k xs) 0 c
           = Inr (take k xs \<noteq> [] \<and> limit_reached mc (0 + length (take k xs)),
                  0 + length (take k xs), items_done d j uid (take k xs) 0 c)"
    using assms(1)
  proof (rule listing_loop_ok)
    fix i assume "0 < i" and "i < 0 + length (take k xs)"
    then show "\<not> limit_reached mc i"
      using within_limit_before [OF assms(3), of i] len by simp
  qed
  moreover have "take k xs \<noteq> [] \<longleftrightarrow> 0 < k"
    using len by (cases k) auto
  ultimately show ?thesis
    using len by auto
qed

lemmas eval_loop =
  profiled_def interrupted_def start_job_def limit_reached_def loop_body_def add_edge_def
  references_ok_def add_minimal_user_def insert_user_if_absent_def insert_edge_def
  insert_job_def new_job_def minimal_user_def user_data_def acct1_profile_def execute_def
  commit_def empty_tables_def acct_def Let_def

text \<open>
  C9, as stated, has every edge insert committed before the next account is taken. After
  the first of two listed accounts is processed, the open transaction holds its edge and
  the store does not: an interruption at this point loses the edge of a processed account.
\<close>

theorem processed_edge_lost_on_interrupt:
  "isl (listing_loop Followers 1 ''1'' None (take 1 [acct ''a'', acct ''b'']) 0
          (start_job Followers ''acct1'' jan15 (db_conn profiled))) = False
   \<and> fst (snd (projr (listing_loop Followers 1 ''1'' None (take 1 [acct ''a'', acct ''b'']) 0
              (start_job Followers ''acct1'' jan15 (db_conn profiled))))) = 1
   \<and> followers (work (snd (snd (projr (listing_loop Followers 1 ''1'' None
              (take 1 [acct ''a'', acct ''b'']) 0
              (start_job Followers ''acct1'' jan15 (db_conn profiled))))))) = [(''1'', ''a'')]
   \<and> followers (interrupted (snd (snd (projr (listing_loop Followers 1 ''1'' None
              (take 1 [acct ''a'', acct ''b'']) 0
              (start_job Followers ''acct1'' jan15 (db_conn profiled))))))) = []"
  by (simp add: eval_loop)

text \<open>
  C9, amended. Edge inserts are committed together with the progress checkpoint, after
  every tenth account. Let the target have a users row, so that no edge insert raises, let
  the loop be entered with nothing uncommitted, and let \<^verbatim>\<open>max_count\<close> (absent, 0 or a
  number) let the loop take \<open>k\<close> accounts of the listing. Then the loop processes these \<open>k\<close>
  accounts without raising, and an interruption at that point leaves the store as the loop
  had it after the first \<open>k - k mod 10\<close> of them: the edges of these survive and those of
  the at most nine later accounts are lost. The status transitions of the job (to in
  progress, completed and failed) are each committed by the statement group that makes
  them.
\<close>

theorem edges_committed_every_ten:
  assumes "durable c = work c" and "has_user uid (work c)" and "k \<le> length xs"
    and "within_limit mc k"
  shows "\<exists>broke c' broke0 c0.
         listing_loop d j uid mc (take k xs) 0 c = Inr (broke, k, c')
       \<and> edges d (work c') = fold insert_edge (edge_rows uid (take k xs)) (edges d (work c))
       \<and> listing_loop d j uid mc (take (k - k mod 10) xs) 0 c = Inr (broke0, k - k mod 10, c0)
       \<and> interrupted c' = work c0
       \<and> edges d (interrupted c')
           = fold insert_edge (edge_rows uid (take (k - k mod 10) xs)) (edges d (work c))
       \<and> k mod 10 < 10
       \<and> durable (start_job d u t c1) = work (start_job d u t c1)
       \<and> durable (complete_job j t n c1) = work (complete_job j t n c1)
       \<and> durable (fail_job j msg c1) = work (fail_job j msg c1)"
proof -
  let ?c' = "items_done d j uid (take k xs) 0 c"
  let ?c0 = "items_done d j uid (take (k - k mod 10) xs) 0 c"
  have le: "k - k mod 10 \<le> length xs"
    using assms(3) by simp
  have a: "listing_loop d j uid mc (take k xs) 0 c = Inr (0 < k \<and> limit_reached mc k, k, ?c')"
    using assms(2,3,4) by (rule listing_loop_prefix)
  have b: "edges d (work ?c') = fold insert_edge (edge_rows uid (take k xs)) (edges d (work c))"
    by (rule edges_items_done)
  have "within_limit mc (k - k mod 10)"
    using assms(4) by (rule within_limit_less) simp
  with assms(2) le
  have c: "listing_loop d j uid mc (take (k - k mod 10) xs) 0 c
       = Inr (0 < k - k mod 10 \<and> limit_reached mc (k - k mod 10), k - k mod 10, ?c0)"
    by (rule listing_loop_prefix)
  have i: "interrupted ?c' = work ?c0"
    using durable_items_done [OF assms(1,3)] by (simp add: interrupted_def)
  have f: "edges d (interrupted ?c')
           = fold insert_edge (edge_rows uid (take (k - k mod 10) xs)) (edges d (work c))"
    unfolding i by (rule edges_items_done)
  have g: "k mod 10 < 10" by simp
  from a b c i f g durable_start_job durable_complete_job durable_fail_job show ?thesis
    by blast
qed

theorem edges_committed_every_ten_witness:
  "durable (start_job Followers ''acct1'' jan15 (db_conn profiled))
     = work (start_job Followers ''acct1'' jan15 (db_conn profiled))
   \<and> has_user ''1'' (work (start_job Followers ''acct1'' jan15 (db_conn profiled)))
   \<and> (12::nat) \<le> length twelve
   \<and> within_limit (Some 12) 12
   \<and> fst (snd (projr (listing_loop Followers 1 ''1'' (Some 12) (take 12 twelve) 0
              (start_job Followers ''acct1'' jan15 (db_conn profiled))))) = 12
   \<and> followers (work (snd (snd (projr (listing_loop Followers 1 ''1'' (Some 12) (take 12 twelve) 0
              (start_job Followers ''acct1'' jan15 (db_conn profiled)))))))
       = [(''1'', ''a''), (''1'', ''b''), (''1'', ''c''), (''1'', ''d''), (''1'', ''e''),
          (''1'', ''f''), (''1'', ''g''), (''1'', ''h''), (''1'', ''i''), (''1'', ''j''),
          (''1'', ''k''), (''1'', ''l'')]
   \<and> followers (interrupted (snd (snd (projr (listing_loop Followers 1 ''1'' (Some 12)
              (take 12 twelve) 0 (start_job Followers ''acct1'' jan15 (db_conn profiled)))))))
       = [(''1'', ''a''), (''1'', ''b''), (''1'', ''c''), (''1'', ''d''), (''1'', ''e''),
          (''1'', ''f''), (''1'', ''g''), (''1'', ''h''), (''1'', ''i''), (''1'', ''j'')]"
proof -
  let ?c = "start_job Followers ''acct1'' jan15 (db_conn profiled)"
  have h1: "durable ?c = work ?c"
    by (simp add: start_job_def commit_def)
  have h2: "has_user ''1'' (work ?c)"
    by (simp add: has_user_def start_job_def commit_def execute_def insert_job_def profiled_def
        user_data_def acct1_profile_def)
  have h3: "(12::nat) \<le> length twelve"
    by (simp add: twelve_def)
  have h4: "within_limit (Some 12) 12"
    by (simp add: within_limit_def)
  have e0: "followers (work ?c) = []"
    by (simp add: start_job_def commit_def execute_def insert_job_def profiled_def
        empty_tables_def)
  from edges_committed_every_ten [OF h1 h2 h3 h4, of Followers 1]
  obtain broke c' where
    run: "listing_loop Followers 1 ''1'' (Some 12) (take 12 twelve) 0 ?c = Inr (broke, 12, c')"
    and all: "edges Followers (work c')
           = fold insert_edge (edge_rows ''1'' (take 12 twelve)) (edges Followers (work ?c))"
    and kept: "edges Followers (interrupted c')
           = fold insert_edge (edge_rows ''1'' (take (12 - 12 mod 10) twelve))
               (edges Followers (work ?c))"
    by blast
  have "followers (work c')
       = [(''1'', ''a''), (''1'', ''b''), (''1'', ''c''), (''1'', ''d''), (''1'', ''e''),
          (''1'', ''f''), (''1'', ''g''), (''1'', ''h''), (''1'', ''i''), (''1'', ''j''),
          (''1'', ''k''), (''1'', ''l'')]"
    using all by (simp add: e0 twelve_def edge_rows_def acct_def insert_edge_def)
  moreover have "followers (interrupted c')
       = [(''1'', ''a''), (''1'', ''b''), (''1'', ''c''), (''1'', ''d''), (''1'', ''e''),
          (''1'', ''f''), (''1'', ''g''), (''1'', ''h''), (''1'', ''i''), (''1'', ''j'')]"
    using kept by (simp add: e0 twelve_def edge_rows_def acct_def insert_edge_def)
  ultimately show ?thesis
    using h1 h2 h3 h4 by (simp only: run sum.sel fst_conv snd_conv simp_thms)
qed

subsection \<open>Jobs that raise\<close>

text \<open>
  C7. A job whose crawler call raises is to be marked failed with the message of the
  error, and the jobs after it in the batch are to be processed. \<open>acct1\<close> is enrolled on
  an empty store and the batch of its three jobs is dispatched. The profile lookup of
  job 1 raises: job 1 is marked failed with the message, as claimed, and no users row
  is written for \<open>acct1\<close>. Job 2, the followers fetch, finds the profile and one listed
  account; the insert of the edge violates the foreign key to the users table and raises.
  The statement in the \<^verbatim>\<open>except\<close> branch of the crawler and the one in the \<^verbatim>\<open>except\<close>
  branch of the scheduler run in the failed transaction, which was never rolled back, and
  raise in turn: job 2 is not marked failed and has no error message, job 3 is not
  processed, and the record the crawler made for the fetch stays in progress. Every later
  call finds the transaction failed and processes nothing.
\<close>

theorem raising_job_left_unmarked:
  "job_status_list enrolled
     = [(1, ''profile'', ''pending''), (2, ''followers'', ''pending''),
        (3, ''following'', ''pending'')]
   \<and> fst (dispatch (profile_down 2) ''acct1'' ''followers''
           (the_scraper (snd (process_job profile_down (1, ''acct1'', ''profile'') enrolled))))
       = Inl InFailedSqlTransaction
   \<and> fst (process_pending_jobs jan15_later profile_down enrolled)
       = [(1, Failed ''connection reset''), (2, Abandoned)]
   \<and> map (\<lambda>r. (job_id r, job_type r, status r, error_message r))
        (scrape_jobs (tables_of (snd (process_pending_jobs jan15_later profile_down enrolled))))
       = [(1, ''profile'', ''failed'', Some ''connection reset''),
          (2, ''followers'', ''pending'', None),
          (3, ''following'', ''pending'', None),
          (4, ''followers'', ''in_progress'', None)]
   \<and> current_day_processed (snd (process_pending_jobs jan15_later profile_down enrolled)) = 0
   \<and> in_failed_transaction (snd (process_pending_jobs jan15_later profile_down enrolled))
   \<and> fst (process_pending_jobs jan16 quiet
             (snd (process_pending_jobs jan15_later profile_down enrolled))) = []
   \<and> job_status_list (snd (process_pending_jobs jan16 quiet
             (snd (process_pending_jobs jan15_later profile_down enrolled))))
       = [(1, ''profile'', ''failed''), (2, ''followers'', ''pending''),
          (3, ''following'', ''pending''), (4, ''followers'', ''in_progress'')]"
  by (simp add: enrolled_def eval_store eval_clock eval_scheduler eval_scraper
      get_user_profile_def listing_loop.simps loop_body_def add_edge_def references_ok_def
      add_minimal_user_def insert_user_if_absent_def minimal_user_def limit_reached_def
      acct_def acct1_profile_def Let_def)

end
